theory Spec2Isabelle
  imports Main "HOL-Library.Multiset"
begin

section \<open>JavaScript values, exceptions and the limits of the model\<close>

text \<open>
  \<^verbatim>\<open>server.js\<close> keeps every collection as a JSON document on disk and works on the
  values that \<^verbatim>\<open>JSON.parse\<close> returns. The values are modelled as a datatype.
  A number is an integer or \<^verbatim>\<open>NaN\<close>; a string is a list of characters, each one
  standing for a code unit below 256; an object is the list of its properties in
  insertion order; \<^verbatim>\<open>undefined\<close> is a value of its own, as in the language.
\<close>

datatype number = Fin int | NaN

datatype jsval =
    JUndefined
  | JNull
  | JBool bool
  | JNum number
  | JStr string
  | JArr "jsval list"
  | JObj "(string \<times> jsval) list"

text \<open>
  A computation of the program returns a value, throws, or leaves the fragment of
  JavaScript that is modelled (\<open>Beyond\<close>): a number with a fraction or an exponent,
  an integer outside the safe range, a code unit above 255, the conversion of an
  array or an object to a primitive. \<open>Beyond\<close> claims nothing about the program.
\<close>

datatype exn = TypeError | SyntaxError | IOError

datatype 'a res = Val 'a | Throw exn | Beyond

fun bnd :: "'a res \<Rightarrow> ('a \<Rightarrow> 'b res) \<Rightarrow> 'b res" where
  "bnd (Val x) f = f x"
| "bnd (Throw e) f = Throw e"
| "bnd Beyond f = Beyond"

section \<open>Characters\<close>

definition dquote :: char where "dquote = CHR 0x22"
definition bslash :: char where "bslash = CHR 0x5C"
definition newline :: char where "newline = CHR 0x0A"

definition code :: "char \<Rightarrow> nat" where
  "code c = of_char c"

definition is_digit :: "char \<Rightarrow> bool" where
  "is_digit c = (48 \<le> code c \<and> code c \<le> 57)"

definition digit_char :: "nat \<Rightarrow> char" where
  "digit_char d = char_of (48 + d)"

definition digit_val :: "char \<Rightarrow> nat" where
  "digit_val c = code c - 48"

text \<open>The white space of the JSON grammar: space, tab, line feed, carriage return.\<close>

definition is_ws :: "char \<Rightarrow> bool" where
  "is_ws c = (code c = 32 \<or> code c = 9 \<or> code c = 10 \<or> code c = 13)"

definition skip_ws :: "string \<Rightarrow> string" where
  "skip_ws s = dropWhile is_ws s"

definition starts :: "char \<Rightarrow> string \<Rightarrow> bool" where
  "starts c s = (case s of [] \<Rightarrow> False | x # _ \<Rightarrow> x = c)"

text \<open>
  \<^verbatim>\<open>String.prototype.toLowerCase\<close> on code units below 256: the letters A to Z and
  the capital letters of Latin-1 (0xC0 to 0xDE without the multiplication sign 0xD7)
  move up by 32, every other code unit stays.
\<close>

definition lower_char :: "char \<Rightarrow> char" where
  "lower_char c =
     (if (65 \<le> code c \<and> code c \<le> 90) \<or> (192 \<le> code c \<and> code c \<le> 222 \<and> code c \<noteq> 215)
      then char_of (code c + 32) else c)"

definition toLowerCase :: "string \<Rightarrow> string" where
  "toLowerCase s = map lower_char s"

section \<open>JSON.stringify(value, null, 2)\<close>

text \<open>Decimal digits of a natural number, most significant first.\<close>

fun digits :: "nat \<Rightarrow> string" where
  "digits n = (if n < 10 then [digit_char n] else digits (n div 10) @ [digit_char (n mod 10)])"

declare digits.simps [simp del]

definition show_int :: "int \<Rightarrow> string" where
  "show_int i = (if i < 0 then CHR ''-'' # digits (nat (- i)) else digits (nat i))"

definition hex_char :: "nat \<Rightarrow> char" where
  "hex_char d = (if d < 10 then char_of (48 + d) else char_of (87 + d))"

text \<open>
  \<^verbatim>\<open>QuoteJSONString\<close>: the quote and the backslash are escaped, the control
  characters with a short escape use it, the other code units below 32 are written
  as \<^verbatim>\<open>\u00xx\<close> in lower case, everything else is copied.
\<close>

definition escape_char :: "char \<Rightarrow> string" where
  "escape_char c =
     (if c = dquote then [bslash, dquote]
      else if c = bslash then [bslash, bslash]
      else if code c = 8 then [bslash, CHR ''b'']
      else if code c = 9 then [bslash, CHR ''t'']
      else if code c = 10 then [bslash, CHR ''n'']
      else if code c = 12 then [bslash, CHR ''f'']
      else if code c = 13 then [bslash, CHR ''r'']
      else if code c < 32 then
        [bslash, CHR ''u'', CHR ''0'', CHR ''0'', hex_char (code c div 16), hex_char (code c mod 16)]
      else [c])"

definition quote :: "string \<Rightarrow> string" where
  "quote s = dquote # concat (map escape_char s) @ [dquote]"

definition indent :: "nat \<Rightarrow> string" where
  "indent n = newline # replicate n CHR '' ''"

fun join :: "string \<Rightarrow> string list \<Rightarrow> string" where
  "join sep [] = []"
| "join sep [x] = x"
| "join sep (x # y # ys) = x @ sep @ join sep (y # ys)"

text \<open>
  \<^verbatim>\<open>SerializeJSONProperty\<close> with a gap of two spaces; the first argument is the
  current indentation. \<open>None\<close> is the result \<^verbatim>\<open>undefined\<close>: such a property is left
  out of an object and written \<^verbatim>\<open>null\<close> in an array. \<^verbatim>\<open>NaN\<close> is written \<^verbatim>\<open>null\<close>.
\<close>

fun serialize :: "nat \<Rightarrow> jsval \<Rightarrow> string option" where
  "serialize ind JUndefined = None"
| "serialize ind JNull = Some ''null''"
| "serialize ind (JBool b) = Some (if b then ''true'' else ''false'')"
| "serialize ind (JNum x) = Some (case x of Fin i \<Rightarrow> show_int i | NaN \<Rightarrow> ''null'')"
| "serialize ind (JStr s) = Some (quote s)"
| "serialize ind (JArr vs) =
     Some (if vs = [] then ''[]''
           else ''['' @ indent (ind + 2)
                @ join (CHR '','' # indent (ind + 2))
                    (map (\<lambda>v. case serialize (ind + 2) v of None \<Rightarrow> ''null'' | Some t \<Rightarrow> t) vs)
                @ indent ind @ '']'')"
| "serialize ind (JObj kvs) =
     (let partial = concat (map (\<lambda>(k, v). case serialize (ind + 2) v of
                                  None \<Rightarrow> [] | Some t \<Rightarrow> [quote k @ '': '' @ t]) kvs)
      in Some (if partial = [] then ''{}''
               else ''{'' @ indent (ind + 2)
                    @ join (CHR '','' # indent (ind + 2)) partial
                    @ indent ind @ ''}''))"

definition JSON_stringify :: "jsval \<Rightarrow> string option" where
  "JSON_stringify v = serialize 0 v"

section \<open>JSON.parse\<close>

fun int_of_digits :: "int \<Rightarrow> string \<Rightarrow> int" where
  "int_of_digits acc [] = acc"
| "int_of_digits acc (c # cs) = int_of_digits (10 * acc + int (digit_val c)) cs"

text \<open>The largest magnitude below which every integer is a number of the language: \<open>2^53\<close>.\<close>

definition max_safe :: int where
  "max_safe = 9007199254740992"

text \<open>
  A JSON number: an optional minus sign and an integer part without a leading zero.
  A fraction, an exponent, the negative zero and an integer above \<open>max_safe\<close> are
  numbers of the language that the model does not have.
\<close>

definition parse_number :: "string \<Rightarrow> (int \<times> string) res" where
  "parse_number s =
     (let neg = starts CHR ''-'' s;
          t = (if neg then tl s else s);
          ds = takeWhile is_digit t;
          r = dropWhile is_digit t
      in if ds = [] then Throw SyntaxError
         else if hd ds = CHR ''0'' \<and> 1 < length ds then Throw SyntaxError
         else if starts CHR ''.'' r \<or> starts CHR ''e'' r \<or> starts CHR ''E'' r then Beyond
         else let n = int_of_digits 0 ds
              in if max_safe < n \<or> (neg \<and> n = 0) then Beyond
                 else Val (if neg then - n else n, r))"

definition hex_val :: "char \<Rightarrow> nat option" where
  "hex_val c =
     (if 48 \<le> code c \<and> code c \<le> 57 then Some (code c - 48)
      else if 97 \<le> code c \<and> code c \<le> 102 then Some (code c - 87)
      else if 65 \<le> code c \<and> code c \<le> 70 then Some (code c - 55)
      else None)"

definition unescape :: "char \<Rightarrow> char option" where
  "unescape e =
     (if e = dquote then Some dquote
      else if e = bslash then Some bslash
      else if e = CHR ''/'' then Some CHR ''/''
      else if e = CHR ''b'' then Some (char_of (8::nat))
      else if e = CHR ''f'' then Some (char_of (12::nat))
      else if e = CHR ''n'' then Some (char_of (10::nat))
      else if e = CHR ''r'' then Some (char_of (13::nat))
      else if e = CHR ''t'' then Some (char_of (9::nat))
      else None)"

text \<open>
  The characters of a string after its opening quote, up to the closing one. A
  \<^verbatim>\<open>\uXXXX\<close> escape of a code unit above 255 leaves the model.
\<close>

fun parse_string :: "string \<Rightarrow> (string \<times> string) res" where
  "parse_string [] = Throw SyntaxError"
| "parse_string (c # cs) =
     (if c = dquote then Val ([], cs)
      else if c = bslash then
        (case cs of
           [] \<Rightarrow> Throw SyntaxError
         | e # es \<Rightarrow>
             if e = CHR ''u'' then
               (case es of
                  h1 # h2 # h3 # h4 # r \<Rightarrow>
                    (case (hex_val h1, hex_val h2, hex_val h3, hex_val h4) of
                       (Some a, Some b, Some c, Some d) \<Rightarrow>
                         if a = 0 \<and> b = 0
                         then bnd (parse_string r) (\<lambda>(t, r'). Val (char_of (16 * c + d) # t, r'))
                         else Beyond
                     | _ \<Rightarrow> Throw SyntaxError)
                | _ \<Rightarrow> Throw SyntaxError)
             else
               (case unescape e of
                  None \<Rightarrow> Throw SyntaxError
                | Some x \<Rightarrow> bnd (parse_string es) (\<lambda>(t, r'). Val (x # t, r'))))
      else if code c < 32 then Throw SyntaxError
      else bnd (parse_string cs) (\<lambda>(t, r'). Val (c # t, r')))"

text \<open>
  Defining a property that the object already has keeps its place and replaces its
  value; a new property goes to the end.
\<close>

fun obj_set :: "(string \<times> jsval) list \<Rightarrow> string \<Rightarrow> jsval \<Rightarrow> (string \<times> jsval) list" where
  "obj_set [] k v = [(k, v)]"
| "obj_set ((k', v') # kvs) k v = (if k' = k then (k, v) # kvs else (k', v') # obj_set kvs k v)"

definition strip_prefix :: "string \<Rightarrow> string \<Rightarrow> string option" where
  "strip_prefix p s = (if take (length p) s = p then Some (drop (length p) s) else None)"

text \<open>
  The recursive descent over values, array elements and object members. The first
  argument bounds the number of nested calls. Of two nested calls at least one has
  consumed a character, so \<open>JSON_parse\<close> starts the bound above twice the length of the
  text; a parse that used it up would count as outside the model (\<open>Beyond\<close>), never
  as a syntax error.
\<close>

fun parse_value :: "nat \<Rightarrow> string \<Rightarrow> (jsval \<times> string) res"
  and parse_elems :: "nat \<Rightarrow> string \<Rightarrow> (jsval list \<times> string) res"
  and parse_members :: "nat \<Rightarrow> (string \<times> jsval) list \<Rightarrow> string \<Rightarrow> ((string \<times> jsval) list \<times> string) res"
where
  "parse_value 0 s = Beyond"
| "parse_value (Suc n) s =
     (if starts CHR ''{'' s then
        (let r = skip_ws (tl s)
         in if starts CHR ''}'' r then Val (JObj [], tl r)
            else bnd (parse_members n [] r) (\<lambda>(kvs, r'). Val (JObj kvs, r')))
      else if starts CHR ''['' s then
        (let r = skip_ws (tl s)
         in if starts CHR '']'' r then Val (JArr [], tl r)
            else bnd (parse_elems n r) (\<lambda>(vs, r'). Val (JArr vs, r')))
      else if starts dquote s then
        bnd (parse_string (tl s)) (\<lambda>(t, r). Val (JStr t, r))
      else if starts CHR ''-'' s \<or> (s \<noteq> [] \<and> is_digit (hd s)) then
        bnd (parse_number s) (\<lambda>(i, r). Val (JNum (Fin i), r))
      else (case strip_prefix ''true'' s of Some r \<Rightarrow> Val (JBool True, r) | None \<Rightarrow>
           (case strip_prefix ''false'' s of Some r \<Rightarrow> Val (JBool False, r) | None \<Rightarrow>
           (case strip_prefix ''null'' s of Some r \<Rightarrow> Val (JNull, r) | None \<Rightarrow>
            Throw SyntaxError))))"
| "parse_elems 0 s = Beyond"
| "parse_elems (Suc n) s =
     bnd (parse_value n s) (\<lambda>(v, r).
       let r1 = skip_ws r
       in if starts CHR '','' r1 then
            bnd (parse_elems n (skip_ws (tl r1))) (\<lambda>(vs, r2). Val (v # vs, r2))
          else if starts CHR '']'' r1 then Val ([v], tl r1)
          else Throw SyntaxError)"
| "parse_members 0 acc s = Beyond"
| "parse_members (Suc n) acc s =
     (if starts dquote s then
        bnd (parse_string (tl s)) (\<lambda>(k, r).
          let r1 = skip_ws r
          in if starts CHR '':'' r1 then
               bnd (parse_value n (skip_ws (tl r1))) (\<lambda>(v, r2).
                 let r3 = skip_ws r2; acc' = obj_set acc k v
                 in if starts CHR '','' r3 then parse_members n acc' (skip_ws (tl r3))
                    else if starts CHR ''}'' r3 then Val (acc', tl r3)
                    else Throw SyntaxError)
             else Throw SyntaxError)
      else Throw SyntaxError)"

declare parse_value.simps [simp del] parse_elems.simps [simp del] parse_members.simps [simp del]

definition JSON_parse :: "string \<Rightarrow> jsval res" where
  "JSON_parse s =
     bnd (parse_value (2 * length s + 2) (skip_ws s)) (\<lambda>(v, r).
       if skip_ws r = [] then Val v else Throw SyntaxError)"

section \<open>The data directory and the JSON storage helpers\<close>

text \<open>
  The data directory is the list of its entries by name. An entry is a regular file
  with its text, or a directory: \<^verbatim>\<open>existsSync\<close> is true of both, reading or writing
  a directory throws. Permissions and a full disk are not modelled.
\<close>

datatype node = File string | Dir

type_synonym fsys = "(string \<times> node) list"

definition existsSync :: "fsys \<Rightarrow> string \<Rightarrow> bool" where
  "existsSync fs p = (map_of fs p \<noteq> None)"

definition readFileSync :: "fsys \<Rightarrow> string \<Rightarrow> string res" where
  "readFileSync fs p = (case map_of fs p of Some (File t) \<Rightarrow> Val t | _ \<Rightarrow> Throw IOError)"

fun write_entry :: "string \<Rightarrow> string \<Rightarrow> fsys \<Rightarrow> fsys" where
  "write_entry p t [] = [(p, File t)]"
| "write_entry p t ((q, x) # fs) = (if q = p then (p, File t) # fs else (q, x) # write_entry p t fs)"

definition writeFileSync :: "fsys \<Rightarrow> string \<Rightarrow> string \<Rightarrow> fsys res" where
  "writeFileSync fs p t = (case map_of fs p of Some Dir \<Rightarrow> Throw IOError | _ \<Rightarrow> Val (write_entry p t fs))"

text \<open>
  \<^verbatim>\<open>loadJson\<close> (lines 23 to 33). It only reads, so the directory it returns is the one
  it was given. Whatever the \<^verbatim>\<open>try\<close> block throws, a read error or a syntax error,
  is caught and answered with the fallback (the message on the console is left out).
\<close>

definition loadJson :: "fsys \<Rightarrow> string \<Rightarrow> jsval \<Rightarrow> (jsval \<times> fsys) res" where
  "loadJson fs fileName fallback =
     (if \<not> existsSync fs fileName then Val (fallback, fs)
      else (case bnd (readFileSync fs fileName) JSON_parse of
              Val v \<Rightarrow> Val (v, fs)
            | Throw e \<Rightarrow> Val (fallback, fs)
            | Beyond \<Rightarrow> Beyond))"

text \<open>
  \<^verbatim>\<open>saveJson\<close> (lines 35 to 38). \<^verbatim>\<open>JSON.stringify\<close> of \<^verbatim>\<open>undefined\<close> is \<^verbatim>\<open>undefined\<close>,
  which \<^verbatim>\<open>writeFileSync\<close> refuses with a \<^verbatim>\<open>TypeError\<close>.
\<close>

definition saveJson :: "fsys \<Rightarrow> string \<Rightarrow> jsval \<Rightarrow> fsys res" where
  "saveJson fs fileName v =
     (case JSON_stringify v of
        None \<Rightarrow> Throw TypeError
      | Some t \<Rightarrow> writeFileSync fs fileName t)"

section \<open>The operations of the language that the routes use\<close>

text \<open>Truthiness: \<^verbatim>\<open>undefined\<close>, \<^verbatim>\<open>null\<close>, \<^verbatim>\<open>false\<close>, \<^verbatim>\<open>0\<close>, \<^verbatim>\<open>NaN\<close> and the empty string are falsy.\<close>

definition truthy :: "jsval \<Rightarrow> bool" where
  "truthy v =
     (case v of
        JUndefined \<Rightarrow> False
      | JNull \<Rightarrow> False
      | JBool b \<Rightarrow> b
      | JNum x \<Rightarrow> (case x of Fin i \<Rightarrow> i \<noteq> 0 | NaN \<Rightarrow> False)
      | JStr s \<Rightarrow> s \<noteq> []
      | JArr vs \<Rightarrow> True
      | JObj kvs \<Rightarrow> True)"

text \<open>The operand \<^verbatim>\<open>x || d\<close>.\<close>

definition or_else :: "jsval \<Rightarrow> jsval \<Rightarrow> jsval" where
  "or_else x d = (if truthy x then x else d)"

text \<open>
  Strict equality \<^verbatim>\<open>===\<close>. Primitives are compared by value and \<^verbatim>\<open>NaN\<close> equals
  nothing. Arrays and objects are compared by identity: in every comparison of the
  routes one operand comes from a stored document and the other from the request,
  so two of them are never the same object.
\<close>

fun strict_eq :: "jsval \<Rightarrow> jsval \<Rightarrow> bool" where
  "strict_eq JUndefined JUndefined = True"
| "strict_eq JNull JNull = True"
| "strict_eq (JBool a) (JBool b) = (a = b)"
| "strict_eq (JNum (Fin a)) (JNum (Fin b)) = (a = b)"
| "strict_eq (JStr a) (JStr b) = (a = b)"
| "strict_eq _ _ = False"

text \<open>
  Reading a property. The routes read the names \<^verbatim>\<open>name\<close>, \<^verbatim>\<open>email\<close>, \<^verbatim>\<open>phone\<close>,
  \<^verbatim>\<open>password\<close>, \<^verbatim>\<open>role\<close>, \<^verbatim>\<open>courseType\<close>, \<^verbatim>\<open>status\<close>, \<^verbatim>\<open>courses\<close>, \<^verbatim>\<open>progress\<close>,
  \<^verbatim>\<open>course\<close> and \<^verbatim>\<open>createdAt\<close>, none of which a prototype defines: an object has such
  a property when it is its own, an array or a primitive does not have it, and reading
  it from \<^verbatim>\<open>null\<close> or \<^verbatim>\<open>undefined\<close> throws.
\<close>

definition getp :: "jsval \<Rightarrow> string \<Rightarrow> jsval" where
  "getp v k =
     (case v of
        JObj kvs \<Rightarrow> (case map_of kvs k of Some x \<Rightarrow> x | None \<Rightarrow> JUndefined)
      | _ \<Rightarrow> JUndefined)"

definition read_prop :: "jsval \<Rightarrow> string \<Rightarrow> jsval res" where
  "read_prop v k =
     (case v of
        JUndefined \<Rightarrow> Throw TypeError
      | JNull \<Rightarrow> Throw TypeError
      | _ \<Rightarrow> Val (getp v k))"

text \<open>
  Writing a property (the file is not in strict mode): on an object it is defined, on a
  primitive the write is dropped, on \<^verbatim>\<open>null\<close> or \<^verbatim>\<open>undefined\<close> it throws. An array
  with a named property is not a value of the model.
\<close>

definition set_prop :: "jsval \<Rightarrow> string \<Rightarrow> jsval \<Rightarrow> jsval res" where
  "set_prop v k x =
     (case v of
        JUndefined \<Rightarrow> Throw TypeError
      | JNull \<Rightarrow> Throw TypeError
      | JObj kvs \<Rightarrow> Val (JObj (obj_set kvs k x))
      | JArr vs \<Rightarrow> Beyond
      | _ \<Rightarrow> Val v)"

text \<open>The call \<^verbatim>\<open>x.toLowerCase()\<close>: only a string has the method.\<close>

definition call_toLowerCase :: "jsval \<Rightarrow> string res" where
  "call_toLowerCase v = (case v of JStr s \<Rightarrow> Val (toLowerCase s) | _ \<Rightarrow> Throw TypeError)"

text \<open>
  The receiver of \<^verbatim>\<open>find\<close>, \<^verbatim>\<open>findIndex\<close>, \<^verbatim>\<open>filter\<close>, \<^verbatim>\<open>push\<close> and \<^verbatim>\<open>sort\<close>: of the
  values that a document or a request can hold only an array has these methods.
\<close>

definition as_array :: "jsval \<Rightarrow> jsval list res" where
  "as_array v = (case v of JArr vs \<Rightarrow> Val vs | _ \<Rightarrow> Throw TypeError)"

text \<open>\<^verbatim>\<open>Array.prototype.find\<close>: the first element that satisfies the callback, else \<^verbatim>\<open>undefined\<close>.\<close>

fun find_js :: "(jsval \<Rightarrow> bool res) \<Rightarrow> jsval list \<Rightarrow> jsval res" where
  "find_js p [] = Val JUndefined"
| "find_js p (x # xs) = bnd (p x) (\<lambda>b. if b then Val x else find_js p xs)"

text \<open>\<^verbatim>\<open>Array.prototype.findIndex\<close>: \<open>None\<close> is the result \<^verbatim>\<open>-1\<close>.\<close>

fun findIndex :: "(jsval \<Rightarrow> bool res) \<Rightarrow> jsval list \<Rightarrow> nat option res" where
  "findIndex p [] = Val None"
| "findIndex p (x # xs) =
     bnd (p x) (\<lambda>b. if b then Val (Some 0) else bnd (findIndex p xs) (\<lambda>i. Val (map_option Suc i)))"

fun filter_js :: "(jsval \<Rightarrow> bool res) \<Rightarrow> jsval list \<Rightarrow> jsval list res" where
  "filter_js p [] = Val []"
| "filter_js p (x # xs) =
     bnd (p x) (\<lambda>b. bnd (filter_js p xs) (\<lambda>ys. Val (if b then x # ys else ys)))"

text \<open>
  \<^verbatim>\<open>Number(x)\<close>. Of a string: white space is trimmed, the empty string is \<^verbatim>\<open>0\<close>, an
  optional sign and decimal digits are that integer, and a text that starts with
  nothing a numeric literal can start with is \<^verbatim>\<open>NaN\<close>. The other numeric literals
  (fraction, exponent, hexadecimal, \<^verbatim>\<open>Infinity\<close>) are outside the model, and so is the
  conversion of an array or an object.
\<close>

definition is_space :: "char \<Rightarrow> bool" where
  "is_space c = (code c \<in> {9, 10, 11, 12, 13, 32, 160})"

definition trim :: "string \<Rightarrow> string" where
  "trim s = rev (dropWhile is_space (rev (dropWhile is_space s)))"

text \<open>The characters a numeric literal can start with: a digit, a sign, the point, the I of \<^verbatim>\<open>Infinity\<close>.\<close>

definition numeric_start :: "char \<Rightarrow> bool" where
  "numeric_start c =
     (is_digit c \<or> c = CHR ''+'' \<or> c = CHR ''-'' \<or> c = CHR ''.'' \<or> c = CHR ''I'')"

definition string_to_number :: "string \<Rightarrow> number res" where
  "string_to_number s =
     (let t = trim s;
          sign = (starts CHR ''-'' t \<or> starts CHR ''+'' t);
          ds = (if sign then tl t else t)
      in if t = [] then Val (Fin 0)
         else if ds \<noteq> [] \<and> list_all is_digit ds then
           (let n = int_of_digits 0 ds
            in if max_safe < n \<or> (starts CHR ''-'' t \<and> n = 0) then Beyond
               else Val (Fin (if starts CHR ''-'' t then - n else n)))
         else if numeric_start (hd t) then Beyond
         else Val NaN)"

definition to_number :: "jsval \<Rightarrow> number res" where
  "to_number v =
     (case v of
        JUndefined \<Rightarrow> Val NaN
      | JNull \<Rightarrow> Val (Fin 0)
      | JBool b \<Rightarrow> Val (Fin (if b then 1 else 0))
      | JNum x \<Rightarrow> Val x
      | JStr s \<Rightarrow> string_to_number s
      | JArr vs \<Rightarrow> Beyond
      | JObj kvs \<Rightarrow> Beyond)"

text \<open>
  The time value of \<^verbatim>\<open>new Date(x)\<close>; \<open>None\<close> is the invalid date. A string goes
  through \<^verbatim>\<open>Date.parse\<close>, which the run time provides and the model takes as the
  parameter \<open>dp\<close>; a number is a time value when it lies within 8.64e15 milliseconds
  of the epoch.
\<close>

definition time_value :: "(string \<Rightarrow> int option) \<Rightarrow> jsval \<Rightarrow> int option res" where
  "time_value dp v =
     (case v of
        JUndefined \<Rightarrow> Val None
      | JNull \<Rightarrow> Val (Some 0)
      | JBool b \<Rightarrow> Val (Some (if b then 1 else 0))
      | JNum x \<Rightarrow> Val (case x of Fin i \<Rightarrow> if \<bar>i\<bar> \<le> 8640000000000000 then Some i else None | NaN \<Rightarrow> None)
      | JStr s \<Rightarrow> Val (dp s)
      | JArr vs \<Rightarrow> Beyond
      | JObj kvs \<Rightarrow> Beyond)"

text \<open>
  \<^verbatim>\<open>Array.prototype.sort\<close> with a comparison function. The sort is stable, and with a
  consistent comparison its result is the one of any stable sort, here an insertion
  from the right. A comparison that yields \<^verbatim>\<open>NaN\<close> is not consistent and leaves the
  order to the implementation. Elements that are \<^verbatim>\<open>undefined\<close> go to the end without
  being compared.
\<close>

fun insert_sorted :: "(jsval \<Rightarrow> jsval \<Rightarrow> int option res) \<Rightarrow> jsval \<Rightarrow> jsval list \<Rightarrow> jsval list res" where
  "insert_sorted cmp x [] = Val [x]"
| "insert_sorted cmp x (y # ys) =
     bnd (cmp x y) (\<lambda>d.
       case d of
         None \<Rightarrow> Beyond
       | Some n \<Rightarrow> if n \<le> 0 then Val (x # y # ys)
                  else bnd (insert_sorted cmp x ys) (\<lambda>zs. Val (y # zs)))"

fun sort_defined :: "(jsval \<Rightarrow> jsval \<Rightarrow> int option res) \<Rightarrow> jsval list \<Rightarrow> jsval list res" where
  "sort_defined cmp [] = Val []"
| "sort_defined cmp (x # xs) = bnd (sort_defined cmp xs) (insert_sorted cmp x)"

definition sort_js :: "(jsval \<Rightarrow> jsval \<Rightarrow> int option res) \<Rightarrow> jsval list \<Rightarrow> jsval list res" where
  "sort_js cmp xs =
     bnd (sort_defined cmp (filter (\<lambda>x. x \<noteq> JUndefined) xs)) (\<lambda>ys.
       Val (ys @ filter (\<lambda>x. x = JUndefined) xs))"

section \<open>The routes\<close>

text \<open>
  A route takes the data directory and the request and returns the response together
  with the directory it leaves. A route that throws is answered by the framework
  with status 500; it has written nothing, because each route writes last. The
  response carries the value handed to \<^verbatim>\<open>res.json\<close>.
\<close>

datatype response = Response nat jsval

definition message :: "string \<Rightarrow> jsval" where
  "message m = JObj [(''message'', JStr m)]"

text \<open>The callback \<^verbatim>\<open>u => u.email.toLowerCase() === email.toLowerCase()\<close>.\<close>

definition same_email :: "jsval \<Rightarrow> jsval \<Rightarrow> bool res" where
  "same_email email u =
     bnd (read_prop u ''email'') (\<lambda>e.
     bnd (call_toLowerCase e) (\<lambda>a.
     bnd (call_toLowerCase email) (\<lambda>b. Val (a = b))))"

text \<open>The callback \<^verbatim>\<open>u => u.email.toLowerCase() === email\<close>, the parameter already in lower case.\<close>

definition email_is :: "string \<Rightarrow> jsval \<Rightarrow> bool res" where
  "email_is email u =
     bnd (read_prop u ''email'') (\<lambda>e.
     bnd (call_toLowerCase e) (\<lambda>a. Val (a = email)))"

text \<open>\<^verbatim>\<open>POST /api/auth/signup\<close> (lines 116 to 145); \<open>now\<close> is \<^verbatim>\<open>new Date().toISOString()\<close>.\<close>

definition new_user :: "string \<Rightarrow> jsval \<Rightarrow> jsval" where
  "new_user now body =
     JObj [(''name'', getp body ''name''),
           (''email'', getp body ''email''),
           (''phone'', getp body ''phone''),
           (''password'', getp body ''password''),
           (''role'', getp body ''role''),
           (''courseType'',
              if strict_eq (getp body ''role'') (JStr ''student'')
              then or_else (getp body ''courseType'') JNull else JNull),
           (''status'', JStr ''pending''),
           (''createdAt'', JStr now),
           (''courses'', JArr []),
           (''projectLog'', JArr []),
           (''profile'', JObj [])]"

definition signup :: "string \<Rightarrow> fsys \<Rightarrow> jsval \<Rightarrow> (response \<times> fsys) res" where
  "signup now fs req_body =
     (let body = or_else req_body (JObj [])
      in if \<not> truthy (getp body ''name'') \<or> \<not> truthy (getp body ''email'')
            \<or> \<not> truthy (getp body ''phone'') \<or> \<not> truthy (getp body ''password'')
            \<or> \<not> truthy (getp body ''role'')
         then Val (Response 400 (message ''Missing required fields''), fs)
         else
           bnd (loadJson fs ''users.json'' (JArr [])) (\<lambda>(users, fs1).
           bnd (as_array users) (\<lambda>us.
           bnd (find_js (same_email (getp body ''email'')) us) (\<lambda>exists.
             if truthy exists
             then Val (Response 409 (message ''Email already registered''), fs1)
             else
               bnd (saveJson fs1 ''users.json'' (JArr (us @ [new_user now body]))) (\<lambda>fs2.
                 Val (Response 201
                        (JObj [(''message'', JStr ''Signup successful (pending approval)''),
                               (''user'', new_user now body)]), fs2))))))"

text \<open>\<^verbatim>\<open>POST /api/auth/login\<close> (lines 148 to 182).\<close>

definition login_match :: "jsval \<Rightarrow> jsval \<Rightarrow> jsval \<Rightarrow> jsval \<Rightarrow> bool res" where
  "login_match email password role u =
     bnd (same_email email u) (\<lambda>same.
       Val (same \<and> strict_eq (getp u ''password'') password
                 \<and> strict_eq (or_else (getp u ''role'') (JStr ''student'')) role))"

definition login_user :: "jsval \<Rightarrow> jsval" where
  "login_user user =
     JObj [(''name'', getp user ''name''),
           (''email'', getp user ''email''),
           (''role'', getp user ''role''),
           (''status'', getp user ''status''),
           (''courseType'', getp user ''courseType'')]"

definition login :: "fsys \<Rightarrow> jsval \<Rightarrow> (response \<times> fsys) res" where
  "login fs req_body =
     (let body = or_else req_body (JObj [])
      in if \<not> truthy (getp body ''email'') \<or> \<not> truthy (getp body ''password'')
            \<or> \<not> truthy (getp body ''role'')
         then Val (Response 400 (message ''Missing email/password/role''), fs)
         else
           bnd (loadJson fs ''users.json'' (JArr [])) (\<lambda>(users, fs1).
           bnd (as_array users) (\<lambda>us.
           bnd (find_js (login_match (getp body ''email'') (getp body ''password'') (getp body ''role'')) us)
             (\<lambda>user.
               if \<not> truthy user then Val (Response 401 (message ''Invalid credentials''), fs1)
               else if strict_eq (getp user ''status'') (JStr ''pending'')
               then Val (Response 403 (message ''Account pending admin approval''), fs1)
               else if strict_eq (getp user ''status'') (JStr ''rejected'')
               then Val (Response 403 (message ''Account rejected''), fs1)
               else Val (Response 200
                           (JObj [(''message'', JStr ''Login successful''),
                                  (''user'', login_user user)]), fs1)))))"

text \<open>\<^verbatim>\<open>PATCH /api/admin/users/:email/status\<close> (lines 191 to 205).\<close>

definition update_status :: "fsys \<Rightarrow> string \<Rightarrow> jsval \<Rightarrow> (response \<times> fsys) res" where
  "update_status fs email req_body =
     (let body = or_else req_body (JObj []);
          status = getp body ''status''
      in if \<not> list_ex (strict_eq status) [JStr ''pending'', JStr ''approved'', JStr ''rejected'']
         then Val (Response 400 (message ''Invalid status''), fs)
         else
           bnd (loadJson fs ''users.json'' (JArr [])) (\<lambda>(users, fs1).
           bnd (as_array users) (\<lambda>us.
           bnd (findIndex (same_email (JStr email)) us) (\<lambda>idx.
             case idx of
               None \<Rightarrow> Val (Response 404 (message ''User not found''), fs1)
             | Some i \<Rightarrow>
                 bnd (set_prop (us ! i) ''status'' status) (\<lambda>u.
                 bnd (saveJson fs1 ''users.json'' (JArr (us[i := u]))) (\<lambda>fs2.
                   Val (Response 200
                          (JObj [(''message'', JStr ''Status updated''), (''user'', u)]), fs2)))))))"

text \<open>The callback \<^verbatim>\<open>c => c.name === name\<close>.\<close>

definition course_named :: "jsval \<Rightarrow> jsval \<Rightarrow> bool res" where
  "course_named name c = bnd (read_prop c ''name'') (\<lambda>n. Val (strict_eq n name))"

text \<open>\<^verbatim>\<open>POST /api/students/:email/courses\<close> (lines 251 to 270).\<close>

definition add_course :: "fsys \<Rightarrow> string \<Rightarrow> jsval \<Rightarrow> (response \<times> fsys) res" where
  "add_course fs email_param req_body =
     (let email = toLowerCase email_param;
          body = or_else req_body (JObj []);
          name = getp body ''name''
      in if \<not> truthy name then Val (Response 400 (message ''Course name required''), fs)
         else
           bnd (loadJson fs ''users.json'' (JArr [])) (\<lambda>(users, fs1).
           bnd (as_array users) (\<lambda>us.
           bnd (findIndex (email_is email) us) (\<lambda>idx.
             case idx of
               None \<Rightarrow> Val (Response 404 (message ''Student not found''), fs1)
             | Some i \<Rightarrow>
                 bnd (set_prop (us ! i) ''courses'' (or_else (getp (us ! i) ''courses'') (JArr []))) (\<lambda>me.
                 bnd (as_array (getp me ''courses'')) (\<lambda>cs.
                 bnd (find_js (course_named name) cs) (\<lambda>found.
                   if truthy found
                   then Val (Response 409 (message ''Course already added''), fs1)
                   else
                     let cs' = cs @ [JObj [(''name'', name), (''progress'', JNum (Fin 0))]]
                     in bnd (set_prop me ''courses'' (JArr cs')) (\<lambda>me'.
                        bnd (saveJson fs1 ''users.json'' (JArr (us[i := me']))) (\<lambda>fs2.
                          Val (Response 201
                                 (JObj [(''message'', JStr ''Course added''),
                                        (''courses'', JArr cs')]), fs2))))))))))"

text \<open>\<^verbatim>\<open>PATCH /api/students/:email/courses\<close> (lines 272 to 291).\<close>

definition update_progress :: "fsys \<Rightarrow> string \<Rightarrow> jsval \<Rightarrow> (response \<times> fsys) res" where
  "update_progress fs email_param req_body =
     (let email = toLowerCase email_param;
          body = or_else req_body (JObj []);
          name = getp body ''name'';
          progress = getp body ''progress''
      in if \<not> truthy name then Val (Response 400 (message ''Course name required''), fs)
         else
           bnd (loadJson fs ''users.json'' (JArr [])) (\<lambda>(users, fs1).
           bnd (as_array users) (\<lambda>us.
           bnd (findIndex (email_is email) us) (\<lambda>idx.
             case idx of
               None \<Rightarrow> Val (Response 404 (message ''Student not found''), fs1)
             | Some i \<Rightarrow>
                 bnd (set_prop (us ! i) ''courses'' (or_else (getp (us ! i) ''courses'') (JArr []))) (\<lambda>me.
                 bnd (as_array (getp me ''courses'')) (\<lambda>cs.
                 bnd (findIndex (course_named name) cs) (\<lambda>cIdx.
                   case cIdx of
                     None \<Rightarrow> Val (Response 404 (message ''Course not found for student''), fs1)
                   | Some j \<Rightarrow>
                       bnd (to_number (or_else progress (JNum (Fin 0)))) (\<lambda>p.
                       bnd (set_prop (cs ! j) ''progress'' (JNum p)) (\<lambda>c.
                       bnd (set_prop me ''courses'' (JArr (cs[j := c]))) (\<lambda>me'.
                       bnd (saveJson fs1 ''users.json'' (JArr (us[i := me']))) (\<lambda>fs2.
                         Val (Response 200
                                (JObj [(''message'', JStr ''Progress updated''),
                                       (''course'', c)]), fs2))))))))))))"

text \<open>
  \<^verbatim>\<open>GET /api/questions\<close> (lines 455 to 462). The comparison function is
  \<^verbatim>\<open>(a, b) => new Date(b.createdAt) - new Date(a.createdAt)\<close>: the difference of the
  two time values, \<^verbatim>\<open>NaN\<close> when one of the dates is invalid.
\<close>

definition newest_first :: "(string \<Rightarrow> int option) \<Rightarrow> jsval \<Rightarrow> jsval \<Rightarrow> int option res" where
  "newest_first dp a b =
     bnd (read_prop b ''createdAt'') (\<lambda>cb.
     bnd (time_value dp cb) (\<lambda>tb.
     bnd (read_prop a ''createdAt'') (\<lambda>ca.
     bnd (time_value dp ca) (\<lambda>ta.
       Val (case (tb, ta) of (Some x, Some y) \<Rightarrow> Some (x - y) | _ \<Rightarrow> None)))))"

definition list_questions :: "(string \<Rightarrow> int option) \<Rightarrow> fsys \<Rightarrow> jsval \<Rightarrow> (response \<times> fsys) res" where
  "list_questions dp fs course =
     bnd (loadJson fs ''questions.json'' (JArr [])) (\<lambda>(questions, fs1).
     bnd (if truthy course
          then bnd (as_array questions) (\<lambda>qs.
               bnd (filter_js (\<lambda>q. bnd (read_prop q ''course'') (\<lambda>c. Val (strict_eq c course))) qs) (\<lambda>ys.
                 Val (JArr ys)))
          else Val questions) (\<lambda>list.
     bnd (as_array list) (\<lambda>xs.
     bnd (sort_js (newest_first dp) xs) (\<lambda>ordered.
       Val (Response 200 (JArr ordered), fs1)))))"

section \<open>JSON values and the shape of their text\<close>

text \<open>
  The values that a JSON text denotes, within the model: no \<^verbatim>\<open>undefined\<close> and no \<^verbatim>\<open>NaN\<close>
  anywhere, integers in the safe range, objects without a repeated property name. They
  are the values a request body or a parsed document can hold.
\<close>

fun json_value :: "jsval \<Rightarrow> bool" where
  "json_value JUndefined = False"
| "json_value JNull = True"
| "json_value (JBool b) = True"
| "json_value (JNum x) = (case x of Fin i \<Rightarrow> \<bar>i\<bar> \<le> max_safe | NaN \<Rightarrow> False)"
| "json_value (JStr s) = True"
| "json_value (JArr vs) = list_all json_value vs"
| "json_value (JObj kvs) = (distinct (map fst kvs) \<and> list_all (\<lambda>kv. json_value (snd kv)) kvs)"

text \<open>What follows the text of a value inside the text of an array or an object, or at the end.\<close>

definition follow :: "string \<Rightarrow> bool" where
  "follow r = (r = [] \<or> hd r = CHR '','' \<or> hd r = newline)"

text \<open>The text of an array element and of an object member at a given indentation.\<close>

definition elem_text :: "nat \<Rightarrow> jsval \<Rightarrow> string" where
  "elem_text k v = (case serialize k v of None \<Rightarrow> ''null'' | Some t \<Rightarrow> t)"

definition member_text :: "nat \<Rightarrow> string \<times> jsval \<Rightarrow> string" where
  "member_text k kv = quote (fst kv) @ '': '' @ elem_text k (snd kv)"

text \<open>The first character of the text of a value: never white space, a comma or a closing bracket.\<close>

definition opener :: "string \<Rightarrow> bool" where
  "opener t = (t \<noteq> [] \<and> \<not> is_ws (hd t) \<and> hd t \<noteq> CHR '']'' \<and> hd t \<noteq> CHR ''}'' \<and> hd t \<noteq> CHR '','')"


text \<open>A primitive: neither an array nor an object.\<close>

definition primitive :: "jsval \<Rightarrow> bool" where
  "primitive v = (case v of JArr vs \<Rightarrow> False | JObj kvs \<Rightarrow> False | _ \<Rightarrow> True)"

section \<open>The users collection as a state\<close>




section \<open>The creation time of a question\<close>



section \<open>Parsing the text of a JSON value gives the value back\<close>

lemma code_eq_iff: "c = d \<longleftrightarrow> code c = code d"
  by (simp add: code_def)

lemma code_char_of: "n < 256 \<Longrightarrow> code (char_of n) = n"
  by (simp add: code_def)

lemma code_less: "code c < 256"
  by (simp add: code_def)

lemma code_literals:
  "code dquote = 34" "code bslash = 92" "code newline = 10"
  "code CHR '','' = 44" "code CHR ''-'' = 45" "code CHR ''.'' = 46" "code CHR ''0'' = 48"
  "code CHR ''e'' = 101" "code CHR ''E'' = 69" "code CHR ''/'' = 47"
  "code CHR ''b'' = 98" "code CHR ''f'' = 102" "code CHR ''n'' = 110" "code CHR ''r'' = 114"
  "code CHR ''t'' = 116" "code CHR ''u'' = 117" "code CHR '':'' = 58" "code CHR '' '' = 32"
  "code CHR ''['' = 91" "code CHR '']'' = 93" "code CHR ''{'' = 123" "code CHR ''}'' = 125"
  by (simp_all add: code_def dquote_def bslash_def newline_def)

lemma is_digit_digit_char: "d < 10 \<Longrightarrow> is_digit (digit_char d)"
  by (simp add: is_digit_def digit_char_def code_char_of)

lemma digit_val_digit_char: "d < 10 \<Longrightarrow> digit_val (digit_char d) = d"
  by (simp add: digit_val_def digit_char_def code_char_of)

lemma digit_char_zero_iff: "d < 10 \<Longrightarrow> digit_char d = CHR ''0'' \<longleftrightarrow> d = 0"
  by (simp add: code_eq_iff code_literals digit_char_def code_char_of)

lemma digits_not_Nil: "digits n \<noteq> []"
  by (subst digits.simps) simp

lemma digits_all_digit: "list_all is_digit (digits n)"
proof (induction n rule: digits.induct)
  case (1 n)
  show ?case
  proof (cases "n < 10")
    case True
    then show ?thesis by (subst digits.simps) (simp add: is_digit_digit_char)
  next
    case False
    with 1 show ?thesis by (subst digits.simps) (simp add: is_digit_digit_char)
  qed
qed

lemma int_of_digits_snoc: "int_of_digits acc (xs @ [c]) = 10 * int_of_digits acc xs + int (digit_val c)"
  by (induction xs arbitrary: acc) simp_all

lemma int_of_digits_digits: "int_of_digits 0 (digits n) = int n"
proof (induction n rule: digits.induct)
  case (1 n)
  show ?case
  proof (cases "n < 10")
    case True
    then show ?thesis by (subst digits.simps) (simp add: digit_val_digit_char)
  next
    case False
    with 1 have "int_of_digits 0 (digits (n div 10)) = int (n div 10)" by simp
    with False have "int_of_digits 0 (digits n) = 10 * int (n div 10) + int (n mod 10)"
      by (subst digits.simps) (simp add: int_of_digits_snoc digit_val_digit_char)
    also have "\<dots> = int n" by presburger
    finally show ?thesis .
  qed
qed

lemma hd_digits_zero: "hd (digits n) = CHR ''0'' \<Longrightarrow> length (digits n) = 1"
proof (induction n rule: digits.induct)
  case (1 n)
  show ?case
  proof (cases "n < 10")
    case True
    then show ?thesis by (subst digits.simps) simp
  next
    case False
    from False have eq: "digits n = digits (n div 10) @ [digit_char (n mod 10)]"
      by (subst digits.simps) simp
    from "1.prems" eq have h: "hd (digits (n div 10)) = CHR ''0''"
      by (simp add: digits_not_Nil)
    with 1 False have "length (digits (n div 10)) = 1" by simp
    then obtain c where c: "digits (n div 10) = [c]"
      by (cases "digits (n div 10)") simp_all
    with h have "c = CHR ''0''" by simp
    with c have "int_of_digits 0 (digits (n div 10)) = 0"
      by (simp add: digit_val_def code_literals)
    then have "n div 10 = 0" by (simp add: int_of_digits_digits)
    with False show ?thesis by simp
  qed
qed

lemma starts_simps [simp]: "starts c [] = False" "starts c (x # xs) = (x = c)"
  by (simp_all add: starts_def)

lemma not_digit_follow: "follow r \<Longrightarrow> r = [] \<or> \<not> is_digit (hd r)"
  by (auto simp: follow_def is_digit_def code_literals)

lemma takeWhile_digits: "follow r \<Longrightarrow> takeWhile is_digit (digits n @ r) = digits n"
  using digits_all_digit [of n] not_digit_follow [of r]
  by (cases r) (auto simp: takeWhile_append list_all_iff)

lemma dropWhile_digits: "follow r \<Longrightarrow> dropWhile is_digit (digits n @ r) = r"
  using digits_all_digit [of n] not_digit_follow [of r]
  by (cases r) (auto simp: dropWhile_append list_all_iff)

lemma follow_not_frac: "follow r \<Longrightarrow> \<not> starts CHR ''.'' r \<and> \<not> starts CHR ''e'' r \<and> \<not> starts CHR ''E'' r"
  by (cases r) (auto simp: follow_def starts_def code_eq_iff code_literals)

lemma starts_minus_digits: "\<not> starts CHR ''-'' (digits n @ r)"
  using digits_all_digit [of n] digits_not_Nil [of n]
  by (cases "digits n") (auto simp: starts_def is_digit_def code_literals)

lemma parse_number_show_int:
  assumes "\<bar>i\<bar> \<le> max_safe" and "follow r"
  shows "parse_number (show_int i @ r) = Val (i, r)"
proof (cases "i < 0")
  case True
  let ?n = "nat (- i)"
  have z: "\<not> (hd (digits ?n) = CHR ''0'' \<and> 1 < length (digits ?n))"
    using hd_digits_zero [of ?n] by auto
  from True assms show ?thesis
    using z
    by (simp add: show_int_def parse_number_def takeWhile_digits dropWhile_digits
        digits_not_Nil follow_not_frac int_of_digits_digits Let_def)
next
  case False
  let ?n = "nat i"
  have z: "\<not> (hd (digits ?n) = CHR ''0'' \<and> 1 < length (digits ?n))"
    using hd_digits_zero [of ?n] by auto
  from False assms show ?thesis
    using z starts_minus_digits [of ?n r]
    by (simp add: show_int_def parse_number_def takeWhile_digits dropWhile_digits
        digits_not_Nil follow_not_frac int_of_digits_digits Let_def)
qed

lemma hex_val_hex_char: "d < 16 \<Longrightarrow> hex_val (hex_char d) = Some d"
  by (auto simp: hex_val_def hex_char_def code_char_of)

lemma hex_val_zero: "hex_val CHR ''0'' = Some 0"
  by (simp add: hex_val_def code_literals)

lemma char_of_code: "char_of (code c) = c"
  by (simp add: code_def)

lemma char_of_div_mod: "char_of (16 * (code c div 16) + code c mod 16) = c"
  by (simp add: char_of_code)

lemma unescape_simps:
  "unescape dquote = Some dquote"
  "unescape bslash = Some bslash"
  "unescape CHR ''b'' = Some (char_of (8::nat))"
  "unescape CHR ''f'' = Some (char_of (12::nat))"
  "unescape CHR ''n'' = Some (char_of (10::nat))"
  "unescape CHR ''r'' = Some (char_of (13::nat))"
  "unescape CHR ''t'' = Some (char_of (9::nat))"
  by (simp_all add: unescape_def code_eq_iff code_literals)

lemma char_of_eq_code: "n < 256 \<Longrightarrow> code c = n \<Longrightarrow> char_of n = c"
  using char_of_code [of c] by simp

lemma parse_string_escape:
  assumes "parse_string r = Val (t, r')"
  shows "parse_string (escape_char c @ r) = Val (c # t, r')"
proof -
  consider "c = dquote" | "c = bslash" | "code c = 8" | "code c = 9" | "code c = 10"
    | "code c = 12" | "code c = 13"
    | "code c < 32" "code c \<notin> {8, 9, 10, 12, 13}"
    | "32 \<le> code c" "c \<noteq> dquote" "c \<noteq> bslash"
    by force
  then show ?thesis
  proof cases
    case 1
    with assms show ?thesis by (simp add: escape_char_def unescape_simps code_eq_iff code_literals)
  next
    case 2
    with assms show ?thesis by (simp add: escape_char_def unescape_simps code_eq_iff code_literals)
  next
    case 3
    with assms show ?thesis
      by (simp add: escape_char_def unescape_simps code_eq_iff code_literals char_of_eq_code)
  next
    case 4
    with assms show ?thesis
      by (simp add: escape_char_def unescape_simps code_eq_iff code_literals char_of_eq_code)
  next
    case 5
    with assms show ?thesis
      by (simp add: escape_char_def unescape_simps code_eq_iff code_literals char_of_eq_code)
  next
    case 6
    with assms show ?thesis
      by (simp add: escape_char_def unescape_simps code_eq_iff code_literals char_of_eq_code)
  next
    case 7
    with assms show ?thesis
      by (simp add: escape_char_def unescape_simps code_eq_iff code_literals char_of_eq_code)
  next
    case 8
    then have e: "escape_char c = [bslash, CHR ''u'', CHR ''0'', CHR ''0'', hex_char (code c div 16), hex_char (code c mod 16)]"
      by (auto simp: escape_char_def code_eq_iff code_literals)
    from 8 have "code c div 16 < 16" by simp
    with assms show ?thesis
      by (simp add: e hex_val_zero hex_val_hex_char char_of_div_mod code_eq_iff code_literals
          code_char_of code_less)
  next
    case 9
    then have e: "escape_char c = [c]"
      by (auto simp: escape_char_def)
    from 9 assms show ?thesis
      by (simp add: e)
  qed
qed

lemma parse_string_escaped:
  "parse_string (concat (map escape_char s) @ dquote # r) = Val (s, r)"
  by (induction s) (simp_all add: parse_string_escape)

lemma parse_string_quote: "parse_string (tl (quote s @ r)) = Val (s, r)"
  by (simp add: quote_def parse_string_escaped)

lemma starts_quote: "starts dquote (quote s @ r)"
  by (simp add: quote_def)

lemma is_ws_literals:
  "is_ws newline" "is_ws CHR '' ''" "\<not> is_ws dquote" "\<not> is_ws CHR '',''" "\<not> is_ws CHR '']''"
  "\<not> is_ws CHR ''}''" "\<not> is_ws CHR '':''" "\<not> is_ws CHR ''[''" "\<not> is_ws CHR ''{''"
  by (simp_all add: is_ws_def code_literals)

lemma skip_ws_Nil [simp]: "skip_ws [] = []"
  by (simp add: skip_ws_def)

lemma skip_ws_start: "\<not> is_ws c \<Longrightarrow> skip_ws (c # r) = c # r"
  by (simp add: skip_ws_def)

lemma skip_ws_indent: "skip_ws (indent k @ r) = skip_ws r"
  by (simp add: skip_ws_def indent_def is_ws_literals dropWhile_append3 dropWhile_append)

lemma skip_ws_space: "skip_ws (CHR '' '' # r) = skip_ws r"
  by (simp add: skip_ws_def is_ws_literals)

lemma opener_digits: "opener (digits n)"
  using digits_not_Nil [of n] digits_all_digit [of n]
  by (cases "digits n") (auto simp: opener_def is_digit_def is_ws_def code_eq_iff code_literals)

lemma opener_Cons: "opener (c # t) = (\<not> is_ws c \<and> c \<noteq> CHR '']'' \<and> c \<noteq> CHR ''}'' \<and> c \<noteq> CHR '','')"
  by (simp add: opener_def)

lemma opener_elem_text: "opener (elem_text k v)"
proof (cases v)
  case (JNum x)
  then show ?thesis
    using opener_digits
    by (cases x) (auto simp: elem_text_def show_int_def opener_Cons is_ws_def code_eq_iff code_literals)
next
  case (JArr vs)
  then show ?thesis
    by (simp add: elem_text_def opener_Cons is_ws_def code_eq_iff code_literals)
next
  case (JObj kvs)
  then show ?thesis
    by (simp add: elem_text_def opener_Cons is_ws_def code_eq_iff code_literals Let_def)
qed (simp_all add: elem_text_def opener_Cons quote_def is_ws_def code_eq_iff code_literals)

lemma opener_append: "opener t \<Longrightarrow> opener (t @ r)"
  by (cases t) (simp_all add: opener_def)

lemma skip_ws_opener: "opener t \<Longrightarrow> skip_ws t = t"
  by (cases t) (simp_all add: opener_def skip_ws_start)

lemma follow_simps: "follow []" "follow (CHR '','' # r)" "follow (indent k @ r)"
  by (simp_all add: follow_def indent_def)

lemma opener_starts: "opener t \<Longrightarrow> \<not> starts CHR '']'' t \<and> \<not> starts CHR ''}'' t \<and> \<not> starts CHR '','' t"
  by (cases t) (simp_all add: opener_def)

lemma serialize_json_value: "json_value v \<Longrightarrow> serialize k v = Some (elem_text k v)"
  by (cases v) (simp_all add: elem_text_def Let_def)

lemma elems_json_value:
  "list_all json_value vs \<Longrightarrow>
   map (\<lambda>v. case serialize k v of None \<Rightarrow> ''null'' | Some t \<Rightarrow> t) vs = map (elem_text k) vs"
  by (simp add: elem_text_def)

lemma members_json_value:
  "list_all (\<lambda>kv. json_value (snd kv)) kvs \<Longrightarrow>
   concat (map (\<lambda>(key, v). case serialize k v of None \<Rightarrow> [] | Some t \<Rightarrow> [quote key @ '': '' @ t]) kvs)
   = map (member_text k) kvs"
  by (induction kvs) (simp_all add: member_text_def serialize_json_value split_beta)

lemma serialize_JArr:
  "list_all json_value vs \<Longrightarrow> vs \<noteq> [] \<Longrightarrow>
   elem_text k (JArr vs) =
     CHR ''['' # indent (k + 2) @ join (CHR '','' # indent (k + 2)) (map (elem_text (k + 2)) vs)
       @ indent k @ '']''"
  by (simp add: elem_text_def elems_json_value)

lemma serialize_JObj:
  "list_all (\<lambda>kv. json_value (snd kv)) kvs \<Longrightarrow> kvs \<noteq> [] \<Longrightarrow>
   elem_text k (JObj kvs) =
     CHR ''{'' # indent (k + 2) @ join (CHR '','' # indent (k + 2)) (map (member_text (k + 2)) kvs)
       @ indent k @ ''}''"
  by (simp add: elem_text_def members_json_value Let_def)

lemma obj_set_fresh: "k \<notin> fst ` set acc \<Longrightarrow> obj_set acc k v = acc @ [(k, v)]"
  by (induction acc) auto

lemma pv_obj:
  "parse_value (Suc n) (CHR ''{'' # s) =
     (if starts CHR ''}'' (skip_ws s) then Val (JObj [], tl (skip_ws s))
      else bnd (parse_members n [] (skip_ws s)) (\<lambda>(kvs, r'). Val (JObj kvs, r')))"
  by (simp add: parse_value.simps Let_def)

lemma pv_arr:
  "parse_value (Suc n) (CHR ''['' # s) =
     (if starts CHR '']'' (skip_ws s) then Val (JArr [], tl (skip_ws s))
      else bnd (parse_elems n (skip_ws s)) (\<lambda>(vs, r'). Val (JArr vs, r')))"
  by (simp add: parse_value.simps Let_def code_eq_iff code_literals)

lemma pv_str:
  "parse_value (Suc n) (dquote # s) = bnd (parse_string s) (\<lambda>(t, r). Val (JStr t, r))"
  by (simp add: parse_value.simps code_eq_iff code_literals)

lemma pv_num:
  "c = CHR ''-'' \<or> is_digit c \<Longrightarrow>
   parse_value (Suc n) (c # s) = bnd (parse_number (c # s)) (\<lambda>(i, r). Val (JNum (Fin i), r))"
  by (auto simp: parse_value.simps code_eq_iff code_literals is_digit_def)

lemma pv_lit:
  "parse_value (Suc n) (''null'' @ r) = Val (JNull, r)"
  "parse_value (Suc n) (''true'' @ r) = Val (JBool True, r)"
  "parse_value (Suc n) (''false'' @ r) = Val (JBool False, r)"
  by (simp_all add: parse_value.simps strip_prefix_def is_digit_def code_eq_iff code_literals code_def dquote_def)

lemma pe_step:
  "parse_value n s = Val (v, r) \<Longrightarrow>
   parse_elems (Suc n) s =
     (if starts CHR '','' (skip_ws r) then
        bnd (parse_elems n (skip_ws (tl (skip_ws r)))) (\<lambda>(vs, r2). Val (v # vs, r2))
      else if starts CHR '']'' (skip_ws r) then Val ([v], tl (skip_ws r))
      else Throw SyntaxError)"
  by (simp add: parse_elems.simps Let_def)

lemma pm_step:
  "parse_string s = Val (k, r) \<Longrightarrow> starts CHR '':'' (skip_ws r) \<Longrightarrow>
   parse_value n (skip_ws (tl (skip_ws r))) = Val (v, r2) \<Longrightarrow>
   parse_members (Suc n) acc (dquote # s) =
     (if starts CHR '','' (skip_ws r2) then parse_members n (obj_set acc k v) (skip_ws (tl (skip_ws r2)))
      else if starts CHR ''}'' (skip_ws r2) then Val (obj_set acc k v, tl (skip_ws r2))
      else Throw SyntaxError)"
  by (simp add: parse_members.simps Let_def)

lemma join_Cons: "xs \<noteq> [] \<Longrightarrow> join sep (x # xs) = x @ sep @ join sep xs"
  by (cases xs) simp_all

lemma opener_join: "xs \<noteq> [] \<Longrightarrow> opener (hd xs) \<Longrightarrow> opener (join sep xs)"
  by (cases xs) (simp_all add: join_Cons opener_append del: join.simps, metis join.simps(2) join_Cons opener_append)

lemma parse_elems_join:
  assumes "vs \<noteq> []"
    and "\<And>v m r. v \<in> set vs \<Longrightarrow> length (elem_text k v) \<le> m \<Longrightarrow> follow r \<Longrightarrow>
           parse_value m (elem_text k v @ r) = Val (v, r)"
    and "length (join (CHR '','' # indent k) (map (elem_text k) vs)) < n"
  shows "parse_elems n (join (CHR '','' # indent k) (map (elem_text k) vs) @ indent j @ CHR '']'' # r)
         = Val (vs, r)"
  using assms
proof (induction vs arbitrary: n rule: list_nonempty_induct)
  case (single v)
  from single.prems(2) obtain m where n: "n = Suc m" and m: "length (elem_text k v) \<le> m"
    by (cases n) simp_all
  have "parse_value m (elem_text k v @ indent j @ CHR '']'' # r) = Val (v, indent j @ CHR '']'' # r)"
    using single.prems(1) m by (simp add: follow_simps)
  then show ?case
    by (simp add: n pe_step skip_ws_indent skip_ws_start is_ws_literals)
next
  case (cons v vs)
  let ?sep = "CHR '','' # indent k"
  let ?J = "join ?sep (map (elem_text k) vs)"
  let ?rest = "indent j @ CHR '']'' # r"
  have J: "join ?sep (elem_text k v # map (elem_text k) vs) = elem_text k v @ ?sep @ ?J"
    using cons.hyps by (simp add: join_Cons)
  from cons.prems(2) J obtain m where n: "n = Suc m"
    and m: "length (elem_text k v) \<le> m" and m': "length ?J < m"
    by (cases n) simp_all
  have op: "opener (?J @ ?rest)"
    using cons.hyps by (intro opener_append opener_join) (simp_all add: hd_map opener_elem_text)
  have v: "parse_value m (elem_text k v @ ?sep @ ?J @ ?rest) = Val (v, ?sep @ ?J @ ?rest)"
    using cons.prems(1) [of v m "?sep @ ?J @ ?rest"] m by (simp add: follow_simps)
  have rec: "parse_elems m (?J @ ?rest) = Val (vs, r)"
    using cons.IH [of m] cons.prems(1) m' by simp
  show ?case
    using v rec op
    by (simp add: n J pe_step skip_ws_start is_ws_literals skip_ws_indent skip_ws_opener)
qed

lemma parse_members_join:
  assumes "kvs \<noteq> []"
    and "\<And>kv m r. kv \<in> set kvs \<Longrightarrow> length (elem_text k (snd kv)) \<le> m \<Longrightarrow> follow r \<Longrightarrow>
           parse_value m (elem_text k (snd kv) @ r) = Val (snd kv, r)"
    and "length (join (CHR '','' # indent k) (map (member_text k) kvs)) < n"
    and "distinct (map fst (acc @ kvs))"
  shows "parse_members n acc (join (CHR '','' # indent k) (map (member_text k) kvs) @ indent j @ CHR ''}'' # r)
         = Val (acc @ kvs, r)"
  using assms
proof (induction kvs arbitrary: n acc rule: list_nonempty_induct)
  case (single kv)
  obtain key v where kv: "kv = (key, v)" by (cases kv)
  let ?rest = "indent j @ CHR ''}'' # r"
  from single.prems(2) obtain m where n: "n = Suc m" and m: "length (elem_text k v) \<le> m"
    by (cases n) (simp_all add: kv member_text_def)
  have s: "parse_string (concat (map escape_char key) @ dquote # CHR '':'' # CHR '' '' # elem_text k v @ ?rest)
           = Val (key, CHR '':'' # CHR '' '' # elem_text k v @ ?rest)"
    by (rule parse_string_escaped)
  have v: "parse_value m (skip_ws (tl (skip_ws (CHR '':'' # CHR '' '' # elem_text k v @ ?rest)))) = Val (v, ?rest)"
    using single.prems(1) [of kv m ?rest] m opener_elem_text [of k v]
    by (simp add: kv follow_simps skip_ws_start is_ws_literals skip_ws_space skip_ws_opener opener_append)
  have fresh: "obj_set acc key v = acc @ [(key, v)]"
    using single.prems(3) by (intro obj_set_fresh) (auto simp: kv)
  show ?case
    using pm_step [OF s _ v, of acc] fresh
    by (simp add: n kv member_text_def quote_def skip_ws_start is_ws_literals skip_ws_indent)
next
  case (cons kv kvs)
  obtain key v where kv: "kv = (key, v)" by (cases kv)
  let ?sep = "CHR '','' # indent k"
  let ?J = "join ?sep (map (member_text k) kvs)"
  let ?rest = "indent j @ CHR ''}'' # r"
  have mt: "member_text k (key, v) = quote key @ CHR '':'' # CHR '' '' # elem_text k v"
    by (simp add: member_text_def)
  have J: "join ?sep (member_text k (key, v) # map (member_text k) kvs) = member_text k (key, v) @ ?sep @ ?J"
    using cons.hyps by (simp add: join_Cons)
  from cons.prems(2) obtain m where n: "n = Suc m"
    and m: "length (elem_text k v) \<le> m" and m': "length ?J < m"
    by (cases n) (simp_all add: kv J, simp add: mt)
  have opm: "opener (member_text k x)" for x
    by (simp add: member_text_def quote_def opener_Cons is_ws_literals code_eq_iff code_literals)
  have op: "opener (?J @ ?rest)"
    using cons.hyps by (intro opener_append opener_join) (simp_all add: hd_map opm)
  have s: "parse_string (concat (map escape_char key) @ dquote # CHR '':'' # CHR '' '' # elem_text k v @ ?sep @ ?J @ ?rest)
           = Val (key, CHR '':'' # CHR '' '' # elem_text k v @ ?sep @ ?J @ ?rest)"
    by (rule parse_string_escaped)
  have v: "parse_value m (skip_ws (tl (skip_ws (CHR '':'' # CHR '' '' # elem_text k v @ ?sep @ ?J @ ?rest))))
           = Val (v, ?sep @ ?J @ ?rest)"
    using cons.prems(1) [of kv m "?sep @ ?J @ ?rest"] m opener_elem_text [of k v]
    by (simp add: kv follow_simps skip_ws_start is_ws_literals skip_ws_space skip_ws_opener opener_append)
  have fresh: "obj_set acc key v = acc @ [(key, v)]"
    using cons.prems(3) by (intro obj_set_fresh) (auto simp: kv)
  have rec: "parse_members m (acc @ [(key, v)]) (?J @ ?rest) = Val ((acc @ [(key, v)]) @ kvs, r)"
    using cons.IH [of m "acc @ [(key, v)]"] cons.prems(1) cons.prems(3) m' by (simp add: kv)
  show ?case
    using pm_step [OF s _ v, of acc] fresh rec op
    by (simp add: n J kv, simp add: mt quote_def skip_ws_start is_ws_literals skip_ws_indent skip_ws_opener)
qed

lemma show_int_start: "\<exists>c s. show_int i = c # s \<and> (c = CHR ''-'' \<or> is_digit c)"
  using digits_not_Nil [of "nat i"] digits_all_digit [of "nat i"]
  by (cases "digits (nat i)") (auto simp: show_int_def)

lemma elem_text_fuel: "length (elem_text k v) \<le> n \<Longrightarrow> \<exists>m. n = Suc m"
  using opener_elem_text [of k v] by (cases n) (simp_all add: opener_def)

lemma parse_value_elem_text:
  "json_value v \<Longrightarrow> length (elem_text k v) \<le> n \<Longrightarrow> follow r \<Longrightarrow>
   parse_value n (elem_text k v @ r) = Val (v, r)"
proof (induction v arbitrary: k n r)
  case JUndefined
  then show ?case by simp
next
  case JNull
  then obtain m where "n = Suc m" by (cases n) (simp_all add: elem_text_def)
  then show ?case using pv_lit(1) [of m r] by (simp add: elem_text_def)
next
  case (JBool b)
  then obtain m where "n = Suc m" by (cases n; cases b) (simp_all add: elem_text_def)
  then show ?case using pv_lit(2) [of m r] pv_lit(3) [of m r] by (cases b) (simp_all add: elem_text_def)
next
  case (JNum x)
  then obtain i where x: "x = Fin i" and i: "\<bar>i\<bar> \<le> max_safe" by (cases x) simp_all
  obtain c s where cs: "show_int i = c # s" "c = CHR ''-'' \<or> is_digit c"
    using show_int_start by blast
  from JNum obtain m where n: "n = Suc m" by (cases n) (simp_all add: elem_text_def x cs(1))
  have "parse_value (Suc m) (c # s @ r) = bnd (parse_number (c # s @ r)) (\<lambda>(i, r). Val (JNum (Fin i), r))"
    using cs(2) by (rule pv_num)
  moreover have "parse_number (c # s @ r) = Val (i, r)"
    using parse_number_show_int [OF i JNum.prems(3)] cs(1) by simp
  ultimately show ?case by (simp add: elem_text_def x n cs(1))
next
  case (JStr s)
  then obtain m where "n = Suc m" by (cases n) (simp_all add: elem_text_def quote_def)
  then show ?case by (simp add: elem_text_def quote_def pv_str parse_string_escaped)
next
  case (JArr vs)
  from JArr.prems(2) obtain m where n: "n = Suc m" using elem_text_fuel by blast
  show ?case
  proof (cases "vs = []")
    case True
    then show ?thesis
      by (simp add: elem_text_def n pv_arr skip_ws_start is_ws_literals)
  next
    case False
    let ?J = "join (CHR '','' # indent (k + 2)) (map (elem_text (k + 2)) vs)"
    from JArr.prems(1) have all: "list_all json_value vs" by simp
    have shape: "elem_text k (JArr vs) = CHR ''['' # indent (k + 2) @ ?J @ indent k @ '']''"
      using all False by (rule serialize_JArr)
    have op: "opener (?J @ indent k @ CHR '']'' # r)"
      using False by (intro opener_append opener_join) (simp_all add: hd_map opener_elem_text)
    have len: "length ?J < m"
      using JArr.prems(2) by (simp add: shape n)
    have "parse_elems m (?J @ indent k @ CHR '']'' # r) = Val (vs, r)"
    proof (rule parse_elems_join [OF False _ len])
      fix v m' r'
      assume "v \<in> set vs" "length (elem_text (k + 2) v) \<le> m'" "follow r'"
      with JArr.IH [of v "k + 2" m' r'] all
      show "parse_value m' (elem_text (k + 2) v @ r') = Val (v, r')"
        by (simp add: list_all_iff)
    qed
    then show ?thesis
      using op opener_starts [OF op]
      by (simp add: shape n pv_arr skip_ws_indent skip_ws_opener)
  qed
next
  case (JObj kvs)
  from JObj.prems(2) obtain m where n: "n = Suc m" using elem_text_fuel by blast
  show ?case
  proof (cases "kvs = []")
    case True
    then show ?thesis
      by (simp add: elem_text_def n pv_obj skip_ws_start is_ws_literals)
  next
    case False
    let ?J = "join (CHR '','' # indent (k + 2)) (map (member_text (k + 2)) kvs)"
    from JObj.prems(1) have all: "list_all (\<lambda>kv. json_value (snd kv)) kvs"
      and dist: "distinct (map fst kvs)" by simp_all
    have shape: "elem_text k (JObj kvs) = CHR ''{'' # indent (k + 2) @ ?J @ indent k @ ''}''"
      using all False by (rule serialize_JObj)
    have opm: "opener (member_text j x)" for j x
      by (simp add: member_text_def quote_def opener_Cons is_ws_literals code_eq_iff code_literals)
    have op: "opener (?J @ indent k @ CHR ''}'' # r)"
      using False by (intro opener_append opener_join) (simp_all add: hd_map opm)
    have len: "length ?J < m"
      using JObj.prems(2) by (simp add: shape n)
    have "parse_members m [] (?J @ indent k @ CHR ''}'' # r) = Val ([] @ kvs, r)"
    proof (rule parse_members_join [OF False _ len])
      fix kv m' r'
      assume "kv \<in> set kvs" "length (elem_text (k + 2) (snd kv)) \<le> m'" "follow r'"
      with JObj.IH [of kv "snd kv" "k + 2" m' r'] all
      show "parse_value m' (elem_text (k + 2) (snd kv) @ r') = Val (snd kv, r')"
        by (cases kv) (auto simp: list_all_iff)
    next
      show "distinct (map fst ([] @ kvs))" using dist by simp
    qed
    then show ?thesis
      using op opener_starts [OF op]
      by (simp add: shape n pv_obj skip_ws_indent skip_ws_opener)
  qed
qed

lemma JSON_parse_stringify:
  assumes "json_value v" and "JSON_stringify v = Some t"
  shows "JSON_parse t = Val v"
proof -
  from assms have t: "t = elem_text 0 v"
    by (simp add: JSON_stringify_def serialize_json_value)
  have "parse_value (2 * length t + 2) (elem_text 0 v @ []) = Val (v, [])"
    using assms(1) by (intro parse_value_elem_text) (simp_all add: t follow_simps)
  then show ?thesis
    using opener_elem_text [of 0 v]
    by (simp add: JSON_parse_def t skip_ws_opener)
qed

lemma map_of_write_entry: "map_of (write_entry p t fs) p = Some (File t)"
  by (induction fs) auto

lemma load_after_save:
  assumes "json_value v" and "saveJson fs name v = Val fs'"
  shows "loadJson fs' name fallback = Val (v, fs')"
proof -
  from assms(2) obtain t where t: "JSON_stringify v = Some t" and w: "writeFileSync fs name t = Val fs'"
    by (auto simp: saveJson_def split: option.splits)
  from w have "fs' = write_entry name t fs"
    by (auto simp: writeFileSync_def split: option.splits node.splits)
  then have "map_of fs' name = Some (File t)"
    by (simp add: map_of_write_entry)
  moreover have "JSON_parse t = Val v"
    using assms(1) t by (rule JSON_parse_stringify)
  ultimately show ?thesis
    by (simp add: loadJson_def existsSync_def readFileSync_def)
qed

section \<open>Properties of the storage helpers\<close>

text \<open>
  Claim C2. For every name and every JSON value \<open>v\<close> (no \<^verbatim>\<open>undefined\<close>, no \<^verbatim>\<open>NaN\<close>,
  distinct property names), when \<^verbatim>\<open>saveJson\<close> has written \<open>v\<close>, a \<^verbatim>\<open>loadJson\<close> of the
  same name on the directory it left returns \<open>v\<close> itself, whatever the fallback.
\<close>

theorem saveJson_loadJson_roundtrip:
  assumes "json_value v" and "saveJson fs name v = Val fs'"
  shows "loadJson fs' name fallback = Val (v, fs')"
  using assms by (rule load_after_save)

theorem saveJson_loadJson_roundtrip_witness:
  "json_value (JArr [JObj [(''email'', JStr ''a@x.com''), (''progress'', JNum (Fin 75)), (''courses'', JArr [])]])
   \<and> saveJson [(''users.json'', File ''not valid json'')] ''users.json''
         (JArr [JObj [(''email'', JStr ''a@x.com''), (''progress'', JNum (Fin 75)), (''courses'', JArr [])]])
       = Val [(''users.json'', File (the (JSON_stringify
           (JArr [JObj [(''email'', JStr ''a@x.com''), (''progress'', JNum (Fin 75)), (''courses'', JArr [])]]))))]
   \<and> loadJson [(''users.json'', File (the (JSON_stringify
           (JArr [JObj [(''email'', JStr ''a@x.com''), (''progress'', JNum (Fin 75)), (''courses'', JArr [])]]))))]
         ''users.json'' JNull
       = Val (JArr [JObj [(''email'', JStr ''a@x.com''), (''progress'', JNum (Fin 75)), (''courses'', JArr [])]],
              [(''users.json'', File (the (JSON_stringify
           (JArr [JObj [(''email'', JStr ''a@x.com''), (''progress'', JNum (Fin 75)), (''courses'', JArr [])]]))))])"
proof -
  let ?v = "JArr [JObj [(''email'', JStr ''a@x.com''), (''progress'', JNum (Fin 75)), (''courses'', JArr [])]]"
  let ?fs' = "[(''users.json'', File (the (JSON_stringify ?v)))]"
  have a: "json_value ?v"
    by (simp add: max_safe_def)
  have b: "saveJson [(''users.json'', File ''not valid json'')] ''users.json'' ?v = Val ?fs'"
    by code_simp
  from a b saveJson_loadJson_roundtrip [OF a b, of JNull] show ?thesis
    by (intro conjI)
qed

lemma parse_not_valid_json: "JSON_parse ''not valid json'' = Throw SyntaxError"
  by code_simp

text \<open>
  Claim C3. When the document of a collection exists and its text is not JSON, as
  the text \<^verbatim>\<open>not valid json\<close> is not, \<^verbatim>\<open>loadJson\<close> returns the fallback it was given
  (so \<^verbatim>\<open>[]\<close> for the fallback \<^verbatim>\<open>[]\<close>) and throws nothing to its caller.
\<close>

theorem loadJson_unparseable_fallback:
  assumes "map_of fs name = Some (File raw)"
    and "raw = ''not valid json'' \<or> JSON_parse raw = Throw e"
  shows "loadJson fs name fallback = Val (fallback, fs)"
proof -
  from assms(2) obtain e' where "JSON_parse raw = Throw e'"
    using parse_not_valid_json by blast
  with assms(1) show ?thesis
    by (simp add: loadJson_def existsSync_def readFileSync_def)
qed

theorem loadJson_unparseable_fallback_witness:
  "map_of [(''users.json'', File ''not valid json'')] ''users.json'' = Some (File ''not valid json'')
   \<and> loadJson [(''users.json'', File ''not valid json'')] ''users.json'' (JArr [])
       = Val (JArr [], [(''users.json'', File ''not valid json'')])"
  using loadJson_unparseable_fallback
          [of "[(''users.json'', File ''not valid json'')]" "''users.json''" "''not valid json''" _ "JArr []"]
  by simp

text \<open>
  Claim C4. When the document of a collection does not exist, \<^verbatim>\<open>loadJson\<close> returns
  exactly the fallback, and the data directory after the read is the one before it:
  no file is created.
\<close>

theorem loadJson_absent_fallback:
  "map_of fs name = None \<Longrightarrow> loadJson fs name fallback = Val (fallback, fs)"
  by (simp add: loadJson_def existsSync_def)

theorem loadJson_absent_fallback_witness:
  "map_of ([] :: fsys) ''users.json'' = None
   \<and> loadJson [] ''users.json'' (JObj [(''k'', JNum (Fin 1))]) = Val (JObj [(''k'', JNum (Fin 1))], [])"
  using loadJson_absent_fallback [of "[]" "''users.json''" "JObj [(''k'', JNum (Fin 1))]"]
  by simp

section \<open>What the parser returns is a JSON value\<close>

lemma bnd_Val: "bnd m f = Val y \<longleftrightarrow> (\<exists>x. m = Val x \<and> f x = Val y)"
  by (cases m) simp_all

lemma int_of_digits_nonneg: "0 \<le> acc \<Longrightarrow> 0 \<le> int_of_digits acc ds"
  by (induction ds arbitrary: acc) simp_all

lemma parse_number_safe: "parse_number s = Val (i, r) \<Longrightarrow> \<bar>i\<bar> \<le> max_safe"
  using int_of_digits_nonneg [of 0 "takeWhile is_digit (if starts CHR ''-'' s then tl s else s)"]
  by (auto simp: parse_number_def Let_def split: if_splits)

lemma keys_obj_set:
  "map fst (obj_set kvs k v) = (if k \<in> set (map fst kvs) then map fst kvs else map fst kvs @ [k])"
  by (induction kvs) (auto simp: rev_image_eqI)

lemma set_obj_set: "set (obj_set kvs k v) \<subseteq> insert (k, v) (set kvs)"
  by (induction kvs) (auto split: if_splits)

lemma json_value_obj_set:
  assumes "json_value (JObj kvs)" and "json_value v"
  shows "json_value (JObj (obj_set kvs k v))"
proof -
  have "distinct (map fst (obj_set kvs k v))"
    using assms(1) by (simp add: keys_obj_set)
  moreover have "\<forall>kv\<in>set (obj_set kvs k v). json_value (snd kv)"
    using assms set_obj_set [of kvs k v] by (auto simp: list_all_iff)
  ultimately show ?thesis by (simp add: list_all_iff)
qed

lemma parse_json_value_aux:
  "(\<forall>s v r. parse_value n s = Val (v, r) \<longrightarrow> json_value v)
   \<and> (\<forall>s vs r. parse_elems n s = Val (vs, r) \<longrightarrow> list_all json_value vs)
   \<and> (\<forall>s acc kvs r. parse_members n acc s = Val (kvs, r) \<longrightarrow> json_value (JObj acc)
         \<longrightarrow> json_value (JObj kvs))"
proof (induction n)
  case 0
  show ?case by (simp add: parse_value.simps parse_elems.simps parse_members.simps)
next
  case (Suc n)
  then have v: "\<And>s v r. parse_value n s = Val (v, r) \<Longrightarrow> json_value v"
    and e: "\<And>s vs r. parse_elems n s = Val (vs, r) \<Longrightarrow> list_all json_value vs"
    and m: "\<And>s acc kvs r. parse_members n acc s = Val (kvs, r) \<Longrightarrow> json_value (JObj acc)
              \<Longrightarrow> json_value (JObj kvs)"
    by blast+
  have V: "json_value v" if "parse_value (Suc n) s = Val (v, r)" for s v r
    using that e m [of "[]"] parse_number_safe
    by (auto simp: parse_value.simps Let_def bnd_Val split: if_splits option.splits)
  have E: "list_all json_value vs" if "parse_elems (Suc n) s = Val (vs, r)" for s vs r
    using that v e
    by (auto simp: parse_elems.simps Let_def bnd_Val split: if_splits)
  have M: "json_value (JObj kvs)"
    if "parse_members (Suc n) acc s = Val (kvs, r)" "json_value (JObj acc)" for s acc kvs r
  proof -
    from that(1) obtain k r0 v r2 where
      pv: "parse_value n (skip_ws (tl (skip_ws r0))) = Val (v, r2)"
      and rest: "(starts CHR '','' (skip_ws r2) \<and> parse_members n (obj_set acc k v) (skip_ws (tl (skip_ws r2))) = Val (kvs, r))
                 \<or> kvs = obj_set acc k v"
      by (auto simp: parse_members.simps Let_def bnd_Val split: if_splits)
    from pv have "json_value v" by (rule v)
    with that(2) have "json_value (JObj (obj_set acc k v))" by (intro json_value_obj_set)
    with rest m show ?thesis by blast
  qed
  from V E M show ?case by blast
qed

lemma JSON_parse_json_value: "JSON_parse s = Val v \<Longrightarrow> json_value v"
  using parse_json_value_aux [of "2 * length s + 2"]
  by (auto simp: JSON_parse_def bnd_Val split: if_splits)

lemma loadJson_json_value:
  assumes "loadJson fs name fallback = Val (v, fs')" and "json_value fallback"
  shows "json_value v \<and> fs' = fs"
  using assms JSON_parse_json_value
  by (auto simp: loadJson_def bnd_Val readFileSync_def split: if_splits res.splits option.splits node.splits)

section \<open>Searching an array, and the callbacks of the routes\<close>

lemma bnd_Val_E:
  assumes "bnd m f = Val y"
  obtains x where "m = Val x" and "f x = Val y"
  using assms by (auto simp: bnd_Val)

lemma as_array_Val: "as_array v = Val xs \<longleftrightarrow> v = JArr xs"
  by (cases v) (auto simp: as_array_def)

lemma find_js_all_False:
  "(\<forall>u\<in>set us. p u = Val False) \<Longrightarrow> find_js p (us @ vs) = find_js p vs"
  by (induction us) simp_all

lemma find_js_none: "(\<forall>u\<in>set us. p u = Val False) \<Longrightarrow> find_js p us = Val JUndefined"
  using find_js_all_False [of us p "[]"] by simp

lemma find_js_Val:
  "find_js p us = Val r \<Longrightarrow>
   (r = JUndefined \<and> (\<forall>u\<in>set us. p u = Val False))
   \<or> (r \<in> set us \<and> p r = Val True)"
proof (induction us)
  case Nil
  then show ?case by simp
next
  case (Cons u us)
  from Cons.prems obtain b where b: "p u = Val b" "(if b then Val u else find_js p us) = Val r"
    by (auto simp: bnd_Val)
  show ?case
  proof (cases b)
    case True
    with b show ?thesis by simp
  next
    case False
    with b Cons.IH show ?thesis by auto
  qed
qed

lemma findIndex_Val_None:
  "findIndex p us = Val None \<Longrightarrow> \<forall>u\<in>set us. p u = Val False"
proof (induction us)
  case Nil
  then show ?case by simp
next
  case (Cons u us)
  then show ?case
    by (auto simp: bnd_Val split: if_splits)
qed

lemma findIndex_Val_Some:
  "findIndex p us = Val (Some i) \<Longrightarrow>
   i < length us \<and> p (us ! i) = Val True \<and> (\<forall>j<i. p (us ! j) = Val False)"
proof (induction us arbitrary: i)
  case Nil
  then show ?case by simp
next
  case (Cons u us)
  from Cons.prems obtain b where b: "p u = Val b"
    and r: "(if b then Val (Some 0) else bnd (findIndex p us) (\<lambda>i. Val (map_option Suc i))) = Val (Some i)"
    by (auto simp: bnd_Val)
  show ?case
  proof (cases b)
    case True
    with b r show ?thesis by simp
  next
    case False
    with r obtain k where k: "findIndex p us = Val (Some k)" "i = Suc k"
      by (auto simp: bnd_Val)
    from Cons.IH [OF k(1)] b False k(2) show ?thesis
      by (auto simp: less_Suc_eq_0_disj)
  qed
qed

lemma findIndex_first:
  "i < length us \<Longrightarrow> p (us ! i) = Val True \<Longrightarrow> (\<forall>j<i. p (us ! j) = Val False) \<Longrightarrow>
   findIndex p us = Val (Some i)"
proof (induction us arbitrary: i)
  case Nil
  then show ?case by simp
next
  case (Cons u us)
  show ?case
  proof (cases i)
    case 0
    with Cons.prems show ?thesis by simp
  next
    case (Suc k)
    with Cons.prems have "p u = Val False" by auto
    moreover from Suc Cons.prems have "findIndex p us = Val (Some k)"
      by (intro Cons.IH) auto
    ultimately show ?thesis using Suc by simp
  qed
qed

text \<open>What the callbacks say about the record they accept or pass over.\<close>

lemma getp_JStr_obj: "getp u k = JStr s \<Longrightarrow> \<exists>kvs. u = JObj kvs"
  by (cases u) (simp_all add: getp_def)

lemma getp_truthy_obj: "truthy (getp u k) \<Longrightarrow> \<exists>kvs. u = JObj kvs"
  by (cases u) (simp_all add: getp_def truthy_def)

lemma call_toLowerCase_Val: "call_toLowerCase v = Val a \<longleftrightarrow> (\<exists>s. v = JStr s \<and> a = toLowerCase s)"
  by (cases v) (auto simp: call_toLowerCase_def)

lemma read_prop_Val: "read_prop u k = Val x \<longleftrightarrow> (u \<noteq> JUndefined \<and> u \<noteq> JNull \<and> x = getp u k)"
  by (cases u) (auto simp: read_prop_def)

lemma same_email_Val:
  "same_email email u = Val b \<longleftrightarrow>
   (\<exists>s t. getp u ''email'' = JStr s \<and> email = JStr t \<and> b = (toLowerCase s = toLowerCase t))"
  by (auto simp: same_email_def bnd_Val read_prop_Val call_toLowerCase_Val dest: getp_JStr_obj)

lemma email_is_Val:
  "email_is e u = Val b \<longleftrightarrow> (\<exists>s. getp u ''email'' = JStr s \<and> b = (toLowerCase s = e))"
  by (auto simp: email_is_def bnd_Val read_prop_Val call_toLowerCase_Val dest: getp_JStr_obj)

lemma truthy_obj [simp]: "truthy (JObj kvs)" "truthy (JArr vs)" "\<not> truthy JUndefined" "\<not> truthy JNull"
  by (simp_all add: truthy_def)

lemma or_else_truthy: "truthy x \<Longrightarrow> or_else x d = x"
  by (simp add: or_else_def)

lemma getp_or_else_body:
  "truthy (getp (or_else body (JObj [])) k) \<Longrightarrow> or_else body (JObj []) = body"
  by (auto simp: or_else_def getp_def split: if_splits)

section \<open>Signup, login and the status update\<close>

lemma json_value_getp: "json_value v \<Longrightarrow> getp v k \<noteq> JUndefined \<Longrightarrow> json_value (getp v k)"
  by (cases v) (auto simp: getp_def list_all_iff split: option.splits dest!: map_of_SomeD)

lemma json_value_getp_truthy: "json_value v \<Longrightarrow> truthy (getp v k) \<Longrightarrow> json_value (getp v k)"
  by (rule json_value_getp) auto

lemma json_value_or_else: "json_value d \<Longrightarrow> json_value v \<Longrightarrow> json_value (or_else (getp v k) d)"
  by (auto simp: or_else_def json_value_getp_truthy)

lemma json_value_new_user:
  assumes "json_value body"
    and "truthy (getp body ''name'')" "truthy (getp body ''email'')" "truthy (getp body ''phone'')"
    and "truthy (getp body ''password'')" "truthy (getp body ''role'')"
  shows "json_value (new_user now body)"
  using assms by (simp add: new_user_def json_value_getp_truthy json_value_or_else)

lemma getp_new_user:
  "getp (new_user now body) ''email'' = getp body ''email''"
  "getp (new_user now body) ''password'' = getp body ''password''"
  "getp (new_user now body) ''role'' = getp body ''role''"
  "getp (new_user now body) ''status'' = JStr ''pending''"
  "getp (new_user now body) ''name'' = getp body ''name''"
  by (simp_all add: new_user_def getp_def)

lemma users_loaded:
  assumes "loadJson fs ''users.json'' (JArr []) = Val (users, fs1)"
  shows "json_value users \<and> fs1 = fs"
  using loadJson_json_value [OF assms] by simp

lemma save_users_load:
  assumes "saveJson fs ''users.json'' (JArr us) = Val fs'" and "list_all json_value us"
  shows "loadJson fs' ''users.json'' (JArr []) = Val (JArr us, fs')"
  using assms by (intro load_after_save [of _ fs]) simp_all

text \<open>What a signup that answers 201 has done.\<close>

lemma signup_201:
  assumes "signup now fs body = Val (Response 201 b, fs')"
  shows "\<exists>us. loadJson fs ''users.json'' (JArr []) = Val (JArr us, fs)
            \<and> list_all json_value us
            \<and> (\<forall>u\<in>set us. same_email (getp body ''email'') u = Val False)
            \<and> saveJson fs ''users.json'' (JArr (us @ [new_user now body])) = Val fs'
            \<and> truthy (getp body ''name'') \<and> truthy (getp body ''email'')
            \<and> truthy (getp body ''phone'') \<and> truthy (getp body ''password'')
            \<and> truthy (getp body ''role'')
            \<and> b = JObj [(''message'', JStr ''Signup successful (pending approval)''),
                        (''user'', new_user now body)]"
proof -
  let ?body = "or_else body (JObj [])"
  from assms have req: "truthy (getp ?body ''name'')" "truthy (getp ?body ''email'')"
    "truthy (getp ?body ''phone'')" "truthy (getp ?body ''password'')" "truthy (getp ?body ''role'')"
    by (auto simp: signup_def Let_def message_def split: if_splits)
  then have body: "?body = body" by (intro getp_or_else_body)
  from assms req obtain users fs1 us ex where
    l: "loadJson fs ''users.json'' (JArr []) = Val (users, fs1)"
    and a: "as_array users = Val us"
    and f: "find_js (same_email (getp body ''email'')) us = Val ex"
    and r: "(if truthy ex then Val (Response 409 (message ''Email already registered''), fs1)
            else bnd (saveJson fs1 ''users.json'' (JArr (us @ [new_user now body]))) (\<lambda>fs2.
                 Val (Response 201
                        (JObj [(''message'', JStr ''Signup successful (pending approval)''),
                               (''user'', new_user now body)]), fs2))) = Val (Response 201 b, fs')"
    by (auto simp: signup_def Let_def body bnd_Val)
  from users_loaded [OF l] a have u: "users = JArr us" "fs1 = fs" "list_all json_value us"
    by (auto simp: as_array_Val)
  from r have nt: "\<not> truthy ex"
    by (auto simp: message_def split: if_splits)
  with find_js_Val [OF f] have none: "\<forall>u\<in>set us. same_email (getp body ''email'') u = Val False"
    by (auto simp: same_email_Val dest!: getp_JStr_obj)
  from r nt have s: "saveJson fs1 ''users.json'' (JArr (us @ [new_user now body])) = Val fs'"
    and b: "b = JObj [(''message'', JStr ''Signup successful (pending approval)''),
                     (''user'', new_user now body)]"
    by (auto simp: bnd_Val)
  from l u none s b req body show ?thesis by auto
qed

lemma strict_eq_refl: "json_value v \<Longrightarrow> primitive v \<Longrightarrow> strict_eq v v"
proof (cases v)
  case (JNum x)
  then show "json_value v \<Longrightarrow> primitive v \<Longrightarrow> strict_eq v v" by (cases x) simp_all
qed (simp_all add: primitive_def)

lemma lower_AX: "toLowerCase ''A@X.com'' = toLowerCase ''a@x.com''"
  by code_simp

lemma lower_BX: "toLowerCase ''B@X.com'' = toLowerCase ''b@x.com''"
  by code_simp

lemma same_email_other_case:
  assumes "same_email (JStr e) u = Val False" and "toLowerCase e' = toLowerCase e"
  shows "same_email (JStr e') u = Val False"
  using assms by (auto simp: same_email_Val)

lemma same_email_new_user:
  assumes "getp body ''email'' = JStr e" and "toLowerCase e' = toLowerCase e"
  shows "same_email (JStr e') (new_user now body) = Val True"
  using assms by (auto simp: same_email_Val getp_new_user)

text \<open>A signup for an address that differs from a registered one only in case.\<close>

lemma signup_duplicate:
  assumes "json_value body1"
    and "getp body1 ''email'' = JStr e1"
    and "signup now1 fs body1 = Val (Response 201 b1, fs1)"
    and "getp body2 ''email'' = JStr e2"
    and "toLowerCase e2 = toLowerCase e1"
    and "truthy (getp body2 ''name'')" and "truthy (getp body2 ''phone'')"
    and "truthy (getp body2 ''password'')" and "truthy (getp body2 ''role'')"
  shows "signup now2 fs1 body2 = Val (Response 409 (message ''Email already registered''), fs1)"
proof -
  from signup_201 [OF assms(3)] obtain us where
    us: "list_all json_value us"
    and none: "\<forall>u\<in>set us. same_email (getp body1 ''email'') u = Val False"
    and s: "saveJson fs ''users.json'' (JArr (us @ [new_user now1 body1])) = Val fs1"
    and req: "truthy (getp body1 ''name'')" "truthy (getp body1 ''email'')"
      "truthy (getp body1 ''phone'')" "truthy (getp body1 ''password'')" "truthy (getp body1 ''role'')"
    by blast
  have nu: "json_value (new_user now1 body1)"
    using assms(1) req by (rule json_value_new_user)
  have l: "loadJson fs1 ''users.json'' (JArr []) = Val (JArr (us @ [new_user now1 body1]), fs1)"
    using s us nu by (intro save_users_load) simp_all
  have "\<forall>u\<in>set us. same_email (JStr e2) u = Val False"
    using none assms(2,5) by (auto intro: same_email_other_case)
  then have f: "find_js (same_email (JStr e2)) (us @ [new_user now1 body1]) = Val (new_user now1 body1)"
    using same_email_new_user [OF assms(2,5)] by (simp add: find_js_all_False)
  have t: "truthy (new_user now1 body1)"
    by (simp add: new_user_def)
  have body: "or_else body2 (JObj []) = body2"
    using assms(4) by (auto simp: or_else_def dest: getp_JStr_obj)
  have e: "truthy (getp body2 ''email'')"
    using assms(2,4,5) req(2) by (auto simp: truthy_def toLowerCase_def)
  show ?thesis
    using assms(4,6-9) e l f t
    by (simp add: signup_def Let_def body as_array_def)
qed

lemma getp_obj_set:
  "getp (JObj (obj_set kvs k x)) k' = (if k' = k then x else getp (JObj kvs) k')"
  by (induction kvs) (auto simp: getp_def)

lemma set_prop_obj: "set_prop (JObj kvs) k x = Val (JObj (obj_set kvs k x))"
  by (simp add: set_prop_def)

lemma stringify_Some: "v \<noteq> JUndefined \<Longrightarrow> \<exists>t. JSON_stringify v = Some t"
  by (cases v) (simp_all add: JSON_stringify_def Let_def)

lemma map_of_write_entry_other: "q \<noteq> p \<Longrightarrow> map_of (write_entry p t fs) q = map_of fs q"
  by (induction fs) auto

lemma saveJson_Val:
  "saveJson fs n v = Val fs' \<longleftrightarrow>
   (\<exists>t. JSON_stringify v = Some t \<and> map_of fs n \<noteq> Some Dir \<and> fs' = write_entry n t fs)"
  by (auto simp: saveJson_def writeFileSync_def split: option.splits node.splits)

lemma saveJson_again:
  assumes "saveJson fs n v = Val fs1" and "v' \<noteq> JUndefined"
  shows "\<exists>fs2. saveJson fs1 n v' = Val fs2"
proof -
  from assms(1) obtain t where "fs1 = write_entry n t fs" by (auto simp: saveJson_Val)
  then have "map_of fs1 n = Some (File t)" by (simp add: map_of_write_entry)
  moreover from assms(2) obtain t' where "JSON_stringify v' = Some t'"
    using stringify_Some by blast
  ultimately show ?thesis by (simp add: saveJson_Val)
qed

lemma login_match_Val:
  "login_match email password role u = Val b \<longleftrightarrow>
   (\<exists>same. same_email email u = Val same
      \<and> b = (same \<and> strict_eq (getp u ''password'') password
                 \<and> strict_eq (or_else (getp u ''role'') (JStr ''student'')) role))"
  by (auto simp: login_match_def bnd_Val)

text \<open>The login that follows a signup, before and after the approval.\<close>

lemma login_after_signup:
  assumes "json_value body"
    and "getp body ''email'' = JStr e"
    and "primitive (getp body ''password'')" and "primitive (getp body ''role'')"
    and "signup now fs body = Val (Response 201 b, fs1)"
    and "getp lbody ''email'' = JStr e'" and "toLowerCase e' = toLowerCase e"
    and "getp lbody ''password'' = getp body ''password''"
    and "getp lbody ''role'' = getp body ''role''"
  shows "login fs1 lbody = Val (Response 403 (message ''Account pending admin approval''), fs1)"
proof -
  let ?nu = "new_user now body"
  from signup_201 [OF assms(5)] obtain us where
    us: "list_all json_value us"
    and none: "\<forall>u\<in>set us. same_email (getp body ''email'') u = Val False"
    and s: "saveJson fs ''users.json'' (JArr (us @ [?nu])) = Val fs1"
    and req: "truthy (getp body ''name'')" "truthy (getp body ''email'')"
      "truthy (getp body ''phone'')" "truthy (getp body ''password'')" "truthy (getp body ''role'')"
    by blast
  have nu: "json_value ?nu"
    using assms(1) req by (rule json_value_new_user)
  have l: "loadJson fs1 ''users.json'' (JArr []) = Val (JArr (us @ [?nu]), fs1)"
    using s us nu by (intro save_users_load) simp_all
  let ?m = "login_match (getp lbody ''email'') (getp lbody ''password'') (getp lbody ''role'')"
  have "\<forall>u\<in>set us. same_email (JStr e') u = Val False"
    using none assms(2,7) by (auto intro: same_email_other_case)
  then have old: "\<forall>u\<in>set us. ?m u = Val False"
    by (simp add: login_match_def assms(6))
  have pw: "strict_eq (getp body ''password'') (getp body ''password'')"
    using assms(1,3) req(4) by (intro strict_eq_refl json_value_getp_truthy)
  have ro: "strict_eq (getp body ''role'') (getp body ''role'')"
    using assms(1,4) req(5) by (intro strict_eq_refl json_value_getp_truthy)
  have new: "?m ?nu = Val True"
    using same_email_new_user [OF assms(2,7), of now] pw ro req(5)
    by (simp add: login_match_def assms(6,8,9) getp_new_user or_else_truthy)
  have f: "find_js ?m (us @ [?nu]) = Val ?nu"
    using old new by (simp add: find_js_all_False)
  have body: "or_else lbody (JObj []) = lbody"
    using assms(6) by (auto simp: or_else_def dest: getp_JStr_obj)
  have e: "truthy (getp lbody ''email'')"
    using assms(2,6,7) req(2) by (auto simp: truthy_def toLowerCase_def)
  have t: "truthy ?nu"
    by (simp add: new_user_def)
  show ?thesis
    using l f e req(4,5) t
    by (simp add: login_def Let_def body as_array_def assms(8,9) getp_new_user)
qed

lemma login_after_approval:
  assumes "json_value body"
    and "getp body ''email'' = JStr e"
    and "primitive (getp body ''password'')" and "primitive (getp body ''role'')"
    and "signup now fs body = Val (Response 201 b, fs1)"
    and "getp lbody ''email'' = JStr e'" and "toLowerCase e' = toLowerCase e"
    and "getp lbody ''password'' = getp body ''password''"
    and "getp lbody ''role'' = getp body ''role''"
    and "toLowerCase e'' = toLowerCase e"
  shows "\<exists>r fs2. update_status fs1 e'' (JObj [(''status'', JStr ''approved'')]) = Val (r, fs2)
           \<and> login fs2 lbody =
               Val (Response 200
                      (JObj [(''message'', JStr ''Login successful''),
                             (''user'', JObj [(''name'', getp body ''name''),
                                              (''email'', JStr e),
                                              (''role'', getp body ''role''),
                                              (''status'', JStr ''approved''),
                                              (''courseType'', getp (new_user now body) ''courseType'')])]),
                    fs2)"
proof -
  let ?nu = "new_user now body"
  from signup_201 [OF assms(5)] obtain us where
    us: "list_all json_value us"
    and none: "\<forall>u\<in>set us. same_email (getp body ''email'') u = Val False"
    and s: "saveJson fs ''users.json'' (JArr (us @ [?nu])) = Val fs1"
    and req: "truthy (getp body ''name'')" "truthy (getp body ''email'')"
      "truthy (getp body ''phone'')" "truthy (getp body ''password'')" "truthy (getp body ''role'')"
    by blast
  have nu: "json_value ?nu"
    using assms(1) req by (rule json_value_new_user)
  have l: "loadJson fs1 ''users.json'' (JArr []) = Val (JArr (us @ [?nu]), fs1)"
    using s us nu by (intro save_users_load) simp_all
  obtain kvs where kvs: "?nu = JObj kvs" by (simp add: new_user_def)
  let ?nu' = "JObj (obj_set kvs ''status'' (JStr ''approved''))"
  have nu': "json_value ?nu'"
    using nu kvs by (intro json_value_obj_set) simp_all
  have gp: "getp ?nu' k = (if k = ''status'' then JStr ''approved'' else getp ?nu k)" for k
    by (simp add: getp_obj_set kvs)
  \<comment> \<open>the status update\<close>
  have "\<forall>u\<in>set us. same_email (JStr e'') u = Val False"
    using none assms(2,10) by (auto intro: same_email_other_case)
  then have idx: "findIndex (same_email (JStr e'')) (us @ [?nu]) = Val (Some (length us))"
    using same_email_new_user [OF assms(2,10), of now]
    by (intro findIndex_first) (auto simp: nth_append)
  obtain fs2 where s2: "saveJson fs1 ''users.json'' (JArr (us @ [?nu'])) = Val fs2"
    using saveJson_again [OF s] by blast
  have upd: "update_status fs1 e'' (JObj [(''status'', JStr ''approved'')])
             = Val (Response 200 (JObj [(''message'', JStr ''Status updated''), (''user'', ?nu')]), fs2)"
    using l idx s2
    by (simp add: update_status_def Let_def or_else_def getp_def as_array_def kvs [symmetric])
       (simp add: kvs set_prop_obj)
  \<comment> \<open>the login on the directory it leaves\<close>
  have l2: "loadJson fs2 ''users.json'' (JArr []) = Val (JArr (us @ [?nu']), fs2)"
    using s2 us nu' by (intro save_users_load) simp_all
  let ?m = "login_match (getp lbody ''email'') (getp lbody ''password'') (getp lbody ''role'')"
  have "\<forall>u\<in>set us. same_email (JStr e') u = Val False"
    using none assms(2,7) by (auto intro: same_email_other_case)
  then have old: "\<forall>u\<in>set us. ?m u = Val False"
    by (simp add: login_match_def assms(6))
  have pw: "strict_eq (getp body ''password'') (getp body ''password'')"
    using assms(1,3) req(4) by (intro strict_eq_refl json_value_getp_truthy)
  have ro: "strict_eq (getp body ''role'') (getp body ''role'')"
    using assms(1,4) req(5) by (intro strict_eq_refl json_value_getp_truthy)
  have "same_email (JStr e') ?nu' = Val True"
    using assms(2,7) by (auto simp: same_email_Val gp getp_new_user)
  then have new: "?m ?nu' = Val True"
    using pw ro req(5)
    by (simp add: login_match_def assms(6,8,9) gp getp_new_user or_else_truthy)
  have f: "find_js ?m (us @ [?nu']) = Val ?nu'"
    using old new by (simp add: find_js_all_False)
  have body: "or_else lbody (JObj []) = lbody"
    using assms(6) by (auto simp: or_else_def dest: getp_JStr_obj)
  have e: "truthy (getp lbody ''email'')"
    using assms(2,6,7) req(2) by (auto simp: truthy_def toLowerCase_def)
  have "login fs2 lbody = Val (Response 200 (JObj [(''message'', JStr ''Login successful''),
                                                   (''user'', login_user ?nu')]), fs2)"
    using l2 f e req(4,5)
    by (simp add: login_def Let_def body as_array_def assms(8,9) gp)
  moreover have "login_user ?nu' = JObj [(''name'', getp body ''name''),
                                         (''email'', JStr e),
                                         (''role'', getp body ''role''),
                                         (''status'', JStr ''approved''),
                                         (''courseType'', getp ?nu ''courseType'')]"
    by (simp add: login_user_def gp getp_new_user assms(2))
  ultimately show ?thesis using upd by simp
qed

text \<open>What a login that answers 200 has found.\<close>

lemma login_200:
  assumes "login fs body = Val (Response 200 b, fs')"
  shows "\<exists>us user. loadJson fs ''users.json'' (JArr []) = Val (JArr us, fs)
           \<and> user \<in> set us
           \<and> login_match (getp body ''email'') (getp body ''password'') (getp body ''role'') user = Val True
           \<and> b = JObj [(''message'', JStr ''Login successful''), (''user'', login_user user)]
           \<and> fs' = fs"
proof -
  let ?body = "or_else body (JObj [])"
  from assms have req: "truthy (getp ?body ''email'')" "truthy (getp ?body ''password'')"
    "truthy (getp ?body ''role'')"
    by (auto simp: login_def Let_def message_def split: if_splits)
  then have body: "?body = body" by (intro getp_or_else_body)
  let ?m = "login_match (getp body ''email'') (getp body ''password'') (getp body ''role'')"
  from assms req obtain users fs1 us user where
    l: "loadJson fs ''users.json'' (JArr []) = Val (users, fs1)"
    and a: "as_array users = Val us"
    and f: "find_js ?m us = Val user"
    and r: "(if \<not> truthy user then Val (Response 401 (message ''Invalid credentials''), fs1)
            else if strict_eq (getp user ''status'') (JStr ''pending'')
            then Val (Response 403 (message ''Account pending admin approval''), fs1)
            else if strict_eq (getp user ''status'') (JStr ''rejected'')
            then Val (Response 403 (message ''Account rejected''), fs1)
            else Val (Response 200
                        (JObj [(''message'', JStr ''Login successful''),
                               (''user'', login_user user)]), fs1)) = Val (Response 200 b, fs')"
    by (auto simp: login_def Let_def body bnd_Val)
  from users_loaded [OF l] a have u: "users = JArr us" "fs1 = fs"
    by (auto simp: as_array_Val)
  from r have t: "truthy user" and b: "b = JObj [(''message'', JStr ''Login successful''), (''user'', login_user user)]"
    and fs: "fs' = fs1"
    by (auto simp: message_def split: if_splits)
  from find_js_Val [OF f] t have "user \<in> set us" "?m user = Val True" by auto
  with l u b fs show ?thesis by auto
qed

section \<open>The addresses of the users collection stay different\<close>







lemma json_value_update:
  "list_all json_value us \<Longrightarrow> json_value x \<Longrightarrow> list_all json_value (us[k := x])"
  by (auto simp: list_all_iff dest!: set_update_subset_insert [THEN subsetD])


section \<open>What a document holds after a value with NaN or undefined was saved\<close>







section \<open>Sorting the questions\<close>







section \<open>The course routes\<close>

lemma findIndex_map_cong:
  "map p ys = map p xs \<Longrightarrow> findIndex p ys = findIndex p xs"
proof (induction xs arbitrary: ys)
  case Nil
  then show ?case by simp
next
  case (Cons x xs)
  then obtain y ys' where ys: "ys = y # ys'" by (cases ys) auto
  with Cons.prems have y: "p y = p x" and "map p ys' = map p xs" by simp_all
  then have "findIndex p ys' = findIndex p xs" by (intro Cons.IH)
  then show ?case by (simp only: ys findIndex.simps y)
qed

lemma findIndex_update:
  assumes "p x = p (xs ! i)"
  shows "findIndex p (xs[i := x]) = findIndex p xs"
proof (rule findIndex_map_cong)
  show "map p (xs[i := x]) = map p xs"
  proof (cases "i < length xs")
    case True
    then have "(map p xs)[i := p x] = map p xs"
      using assms list_update_id [of "map p xs" i] by simp
    then show ?thesis by (simp add: map_update)
  next
    case False
    then show ?thesis by (simp add: list_update_beyond)
  qed
qed

lemma obj_set_twice: "obj_set (obj_set kvs k a) k b = obj_set kvs k b"
  by (induction kvs) auto

lemma email_is_obj_set:
  "k \<noteq> ''email'' \<Longrightarrow> email_is e (JObj (obj_set kvs k x)) = email_is e (JObj kvs)"
  by (simp add: email_is_def read_prop_def getp_obj_set)


lemma course_named_Val:
  "course_named n c = Val b \<longleftrightarrow> (c \<noteq> JUndefined \<and> c \<noteq> JNull \<and> b = strict_eq (getp c ''name'') n)"
  by (auto simp: course_named_def bnd_Val read_prop_Val)

lemma strict_eq_truthy: "strict_eq x n \<Longrightarrow> truthy n \<Longrightarrow> truthy x"
  by (cases x; cases n) (auto simp: truthy_def elim!: strict_eq.elims)

lemma course_named_True_obj:
  assumes "course_named n c = Val True" and "truthy n"
  shows "\<exists>ckvs. c = JObj ckvs"
proof -
  from assms(1) have "strict_eq (getp c ''name'') n" by (simp add: course_named_Val)
  from this assms(2) have "truthy (getp c ''name'')" by (rule strict_eq_truthy)
  then show ?thesis by (rule getp_truthy_obj)
qed

lemma email_is_True_obj: "email_is e u = Val True \<Longrightarrow> \<exists>kvs. u = JObj kvs"
  by (auto simp: email_is_Val dest: getp_JStr_obj)

lemma as_array_or_else:
  "as_array (or_else x (JArr [])) = Val cs \<longleftrightarrow> or_else x (JArr []) = JArr cs"
  by (simp add: as_array_Val)

text \<open>The student and the list of courses that both course routes look up first.\<close>

lemma student_lookup:
  assumes "findIndex (email_is e) us = Val (Some i)"
  obtains kvs where "i < length us" and "us ! i = JObj kvs"
    and "set_prop (us ! i) ''courses'' (or_else (getp (us ! i) ''courses'') (JArr []))
         = Val (JObj (obj_set kvs ''courses'' (or_else (getp (us ! i) ''courses'') (JArr []))))"
proof -
  from findIndex_Val_Some [OF assms] have i: "i < length us" and m: "email_is e (us ! i) = Val True"
    by simp_all
  from email_is_True_obj [OF m] obtain kvs where kvs: "us ! i = JObj kvs" by blast
  show ?thesis
    using i kvs by (intro that [of kvs]) (simp_all add: set_prop_obj)
qed


text \<open>The same steps forwards: when each of them succeeds, the route answers 200.\<close>

lemma update_progress_run:
  assumes "loadJson fs ''users.json'' (JArr []) = Val (JArr us, fs)"
    and "truthy (getp body ''name'')"
    and "findIndex (email_is (toLowerCase e)) us = Val (Some i)" and "us ! i = JObj kvs"
    and "or_else (getp (us ! i) ''courses'') (JArr []) = JArr cs"
    and "findIndex (course_named (getp body ''name'')) cs = Val (Some j)" and "cs ! j = JObj ckvs"
    and "to_number (or_else (getp body ''progress'') (JNum (Fin 0))) = Val p"
    and "saveJson fs ''users.json''
              (JArr (us[i := JObj (obj_set kvs ''courses''
                 (JArr (cs[j := JObj (obj_set ckvs ''progress'' (JNum p))])))])) = Val fs'"
  shows "update_progress fs e body
         = Val (Response 200 (JObj [(''message'', JStr ''Progress updated''),
                                    (''course'', JObj (obj_set ckvs ''progress'' (JNum p)))]), fs')"
proof -
  have body: "or_else body (JObj []) = body"
    using assms(2) by (auto simp: or_else_def dest: getp_truthy_obj)
  have c0: "or_else (getp (JObj kvs) ''courses'') (JArr []) = JArr cs"
    using assms(5) by (simp add: assms(4))
  show ?thesis
    using assms(1,2,3,6,8,9)
    by (simp add: update_progress_def Let_def body as_array_def assms(4) set_prop_obj c0
        getp_obj_set assms(7) obj_set_twice)
qed




lemma json_value_nth: "list_all json_value xs \<Longrightarrow> i < length xs \<Longrightarrow> json_value (xs ! i)"
  by (simp add: list_all_length)

lemma courses_json:
  assumes "json_value u" and "or_else (getp u ''courses'') (JArr []) = JArr cs"
  shows "list_all json_value cs"
proof -
  from assms(1) have "json_value (or_else (getp u ''courses'') (JArr []))"
    by (rule json_value_or_else [rotated]) simp
  with assms(2) show ?thesis by simp
qed


text \<open>What an added course that answers 201 has done.\<close>

lemma add_course_201:
  assumes "add_course fs e body = Val (Response 201 b, fs')"
  shows "\<exists>us i kvs cs.
           loadJson fs ''users.json'' (JArr []) = Val (JArr us, fs) \<and> list_all json_value us
         \<and> findIndex (email_is (toLowerCase e)) us = Val (Some i) \<and> us ! i = JObj kvs
         \<and> or_else (getp (us ! i) ''courses'') (JArr []) = JArr cs
         \<and> (\<forall>c\<in>set cs. course_named (getp body ''name'') c = Val False)
         \<and> saveJson fs ''users.json''
              (JArr (us[i := JObj (obj_set kvs ''courses''
                 (JArr (cs @ [JObj [(''name'', getp body ''name''), (''progress'', JNum (Fin 0))]])))])) = Val fs'
         \<and> truthy (getp body ''name'')"
proof -
  let ?body = "or_else body (JObj [])"
  from assms have name: "truthy (getp ?body ''name'')"
    by (auto simp: add_course_def Let_def message_def split: if_splits)
  then have body: "?body = body" by (rule getp_or_else_body)
  let ?name = "getp body ''name''"
  from assms name obtain users fs1 us idx where
    l: "loadJson fs ''users.json'' (JArr []) = Val (users, fs1)"
    and a: "as_array users = Val us"
    and f: "findIndex (email_is (toLowerCase e)) us = Val idx"
    and r: "(case idx of
               None \<Rightarrow> Val (Response 404 (message ''Student not found''), fs1)
             | Some i \<Rightarrow>
                 bnd (set_prop (us ! i) ''courses'' (or_else (getp (us ! i) ''courses'') (JArr []))) (\<lambda>me.
                 bnd (as_array (getp me ''courses'')) (\<lambda>cs.
                 bnd (find_js (course_named ?name) cs) (\<lambda>found.
                   if truthy found
                   then Val (Response 409 (message ''Course already added''), fs1)
                   else
                     let cs' = cs @ [JObj [(''name'', ?name), (''progress'', JNum (Fin 0))]]
                     in bnd (set_prop me ''courses'' (JArr cs')) (\<lambda>me'.
                        bnd (saveJson fs1 ''users.json'' (JArr (us[i := me']))) (\<lambda>fs2.
                          Val (Response 201
                                 (JObj [(''message'', JStr ''Course added''),
                                        (''courses'', JArr cs')]), fs2)))))))
            = Val (Response 201 b, fs')"
    by (auto simp: add_course_def Let_def body bnd_Val)
  from users_loaded [OF l] a have u: "users = JArr us" "fs1 = fs" "list_all json_value us"
    by (auto simp: as_array_Val)
  from r obtain i where idx: "idx = Some i"
    by (cases idx) (auto simp: message_def)
  from f idx have fi: "findIndex (email_is (toLowerCase e)) us = Val (Some i)" by simp
  from student_lookup [OF fi] obtain kvs where i: "i < length us" and kvs: "us ! i = JObj kvs"
    and me: "set_prop (us ! i) ''courses'' (or_else (getp (us ! i) ''courses'') (JArr []))
             = Val (JObj (obj_set kvs ''courses'' (or_else (getp (us ! i) ''courses'') (JArr []))))"
    by blast
  let ?c0 = "or_else (getp (us ! i) ''courses'') (JArr [])"
  let ?me = "JObj (obj_set kvs ''courses'' ?c0)"
  have gc: "getp ?me ''courses'' = ?c0" by (simp add: getp_obj_set)
  from r idx me gc obtain cs found where
    cs: "?c0 = JArr cs"
    and ff: "find_js (course_named ?name) cs = Val found"
    and r2: "(if truthy found
              then Val (Response 409 (message ''Course already added''), fs1)
              else
                let cs' = cs @ [JObj [(''name'', ?name), (''progress'', JNum (Fin 0))]]
                in bnd (set_prop ?me ''courses'' (JArr cs')) (\<lambda>me'.
                   bnd (saveJson fs1 ''users.json'' (JArr (us[i := me']))) (\<lambda>fs2.
                     Val (Response 201
                            (JObj [(''message'', JStr ''Course added''),
                                   (''courses'', JArr cs')]), fs2))))
             = Val (Response 201 b, fs')"
    by (auto simp: bnd_Val as_array_Val)
  from r2 have nt: "\<not> truthy found" by (auto simp: message_def split: if_splits)
  have none: "\<forall>c\<in>set cs. course_named ?name c = Val False"
  proof -
    from find_js_Val [OF ff] show ?thesis
    proof
      assume "found = JUndefined \<and> (\<forall>u\<in>set cs. course_named ?name u = Val False)"
      then show ?thesis by simp
    next
      assume "found \<in> set cs \<and> course_named ?name found = Val True"
      with course_named_True_obj [of ?name found] name body have "\<exists>ckvs. found = JObj ckvs" by auto
      with nt show ?thesis by auto
    qed
  qed
  from r2 nt have "saveJson fs1 ''users.json''
              (JArr (us[i := JObj (obj_set kvs ''courses''
                 (JArr (cs @ [JObj [(''name'', ?name), (''progress'', JNum (Fin 0))]])))])) = Val fs'"
    by (auto simp: bnd_Val set_prop_obj obj_set_twice Let_def)
  with l u fi kvs cs none name body show ?thesis by auto
qed

text \<open>The first scenario of the course routes: one course, added twice, then updated.\<close>

lemma course_scenario:
  assumes "add_course fs e body = Val (Response 201 b, fs1)"
    and "getp body ''name'' = JStr n"
    and "getp body2 ''name'' = JStr n"
    and "getp pbody ''name'' = JStr n" and "getp pbody ''progress'' = JNum (Fin k)"
    and "k \<noteq> 0"
  shows "add_course fs1 e body2 = Val (Response 409 (message ''Course already added''), fs1)
         \<and> (\<exists>fs2 us i cs.
               update_progress fs1 e pbody
               = Val (Response 200
                        (JObj [(''message'', JStr ''Progress updated''),
                               (''course'', JObj [(''name'', JStr n), (''progress'', JNum (Fin k))])]), fs2)
             \<and> (\<bar>k\<bar> \<le> max_safe \<longrightarrow>
                   loadJson fs2 ''users.json'' (JArr []) = Val (JArr us, fs2)
                 \<and> findIndex (email_is (toLowerCase e)) us = Val (Some i)
                 \<and> getp (us ! i) ''courses'' = JArr cs
                 \<and> filter (\<lambda>c. getp c ''name'' = JStr n) cs
                     = [JObj [(''name'', JStr n), (''progress'', JNum (Fin k))]]))"
proof -
  let ?new = "JObj [(''name'', JStr n), (''progress'', JNum (Fin 0))]"
  let ?new' = "JObj [(''name'', JStr n), (''progress'', JNum (Fin k))]"
  from add_course_201 [OF assms(1)] obtain us i kvs cs where
    l: "loadJson fs ''users.json'' (JArr []) = Val (JArr us, fs)" and us: "list_all json_value us"
    and fi: "findIndex (email_is (toLowerCase e)) us = Val (Some i)" and kvs: "us ! i = JObj kvs"
    and cs: "or_else (getp (us ! i) ''courses'') (JArr []) = JArr cs"
    and none: "\<forall>c\<in>set cs. course_named (JStr n) c = Val False"
    and s: "saveJson fs ''users.json''
              (JArr (us[i := JObj (obj_set kvs ''courses'' (JArr (cs @ [?new])))])) = Val fs1"
    by (auto simp: assms(2))
  from findIndex_Val_Some [OF fi] have i: "i < length us" by simp
  have ju: "json_value (JObj kvs)" using us i kvs json_value_nth by fastforce
  have jcs: "list_all json_value cs" using ju cs kvs courses_json by fastforce
  let ?kvs1 = "obj_set kvs ''courses'' (JArr (cs @ [?new]))"
  let ?us1 = "us[i := JObj ?kvs1]"
  have jme1: "json_value (JObj ?kvs1)"
    using ju jcs by (intro json_value_obj_set) (simp_all add: max_safe_def)
  have l1: "loadJson fs1 ''users.json'' (JArr []) = Val (JArr ?us1, fs1)"
    using s us jme1 by (intro save_users_load) (simp_all add: json_value_update)
  have "email_is (toLowerCase e) (JObj ?kvs1) = email_is (toLowerCase e) (us ! i)"
    by (simp add: kvs email_is_obj_set)
  then have "findIndex (email_is (toLowerCase e)) ?us1 = findIndex (email_is (toLowerCase e)) us"
    by (rule findIndex_update)
  with fi have fi1: "findIndex (email_is (toLowerCase e)) ?us1 = Val (Some i)" by simp
  have at: "?us1 ! i = JObj ?kvs1" using i by simp
  have c1: "or_else (getp (?us1 ! i) ''courses'') (JArr []) = JArr (cs @ [?new])"
    by (simp add: at getp_obj_set or_else_truthy)
  have new: "course_named (JStr n) ?new = Val True"
    by (simp add: course_named_Val getp_def)
  have tn: "truthy (JStr n)"
    using add_course_201 [OF assms(1)] by (auto simp: assms(2))
  \<comment> \<open>the second add\<close>
  have found: "find_js (course_named (JStr n)) (cs @ [?new]) = Val ?new"
    using none new by (simp add: find_js_all_False)
  have body2: "or_else body2 (JObj []) = body2"
    using assms(3) by (auto simp: or_else_def dest: getp_JStr_obj)
  have second: "add_course fs1 e body2 = Val (Response 409 (message ''Course already added''), fs1)"
    using l1 fi1 tn found c1
    by (simp add: add_course_def Let_def body2 assms(3) as_array_def at set_prop_obj getp_obj_set)
  \<comment> \<open>the progress update\<close>
  have fj: "findIndex (course_named (JStr n)) (cs @ [?new]) = Val (Some (length cs))"
    using none new by (intro findIndex_first) (auto simp: nth_append)
  have num: "to_number (or_else (getp pbody ''progress'') (JNum (Fin 0))) = Val (Fin k)"
    using assms(6) by (simp add: assms(5) or_else_def truthy_def to_number_def)
  let ?c2 = "JObj (obj_set [(''name'', JStr n), (''progress'', JNum (Fin 0))] ''progress'' (JNum (Fin k)))"
  let ?us2 = "us[i := JObj (obj_set kvs ''courses'' (JArr (cs @ [?new'])))]"
  have saved: "?us1[i := JObj (obj_set ?kvs1 ''courses'' (JArr ((cs @ [?new])[length cs := ?c2])))] = ?us2"
    by (simp add: obj_set_twice)
  obtain fs2 where s2: "saveJson fs1 ''users.json'' (JArr ?us2) = Val fs2"
    using saveJson_again [OF s] by blast
  then have s2': "saveJson fs1 ''users.json''
      (JArr (?us1[i := JObj (obj_set ?kvs1 ''courses'' (JArr ((cs @ [?new])[length cs := ?c2])))])) = Val fs2"
    by (simp only: saved)
  have "update_progress fs1 e pbody
        = Val (Response 200 (JObj [(''message'', JStr ''Progress updated''), (''course'', ?c2)]), fs2)"
  proof (rule update_progress_run [OF l1 _ _ at c1 _ _ _ s2'])
    show "truthy (getp pbody ''name'')" using tn by (simp add: assms(4))
    show "findIndex (email_is (toLowerCase e)) ?us1 = Val (Some i)" by (rule fi1)
    show "findIndex (course_named (getp pbody ''name'')) (cs @ [?new]) = Val (Some (length cs))"
      using fj by (simp add: assms(4))
    show "(cs @ [?new]) ! length cs = ?new" by simp
    show "to_number (or_else (getp pbody ''progress'') (JNum (Fin 0))) = Val (Fin k)" by (rule num)
  qed
  then have upd': "update_progress fs1 e pbody
             = Val (Response 200 (JObj [(''message'', JStr ''Progress updated''), (''course'', ?new')]), fs2)"
    by simp
  \<comment> \<open>what is stored afterwards\<close>
  have stored: "loadJson fs2 ''users.json'' (JArr []) = Val (JArr ?us2, fs2)
                \<and> findIndex (email_is (toLowerCase e)) ?us2 = Val (Some i)
                \<and> getp (?us2 ! i) ''courses'' = JArr (cs @ [?new'])
                \<and> filter (\<lambda>c. getp c ''name'' = JStr n) (cs @ [?new']) = [?new']"
    if k: "\<bar>k\<bar> \<le> max_safe"
  proof (intro conjI)
    have "json_value (JArr (cs @ [?new']))" using jcs k by simp
    with ju have jme2: "json_value (JObj (obj_set kvs ''courses'' (JArr (cs @ [?new']))))"
      by (rule json_value_obj_set)
    show "loadJson fs2 ''users.json'' (JArr []) = Val (JArr ?us2, fs2)"
      using s2 us jme2 by (intro save_users_load) (simp_all add: json_value_update)
    have "email_is (toLowerCase e) (JObj (obj_set kvs ''courses'' (JArr (cs @ [?new'])))) = email_is (toLowerCase e) (us ! i)"
      by (simp add: kvs email_is_obj_set)
    then have "findIndex (email_is (toLowerCase e)) ?us2 = findIndex (email_is (toLowerCase e)) us"
      by (rule findIndex_update)
    with fi show "findIndex (email_is (toLowerCase e)) ?us2 = Val (Some i)" by simp
    show "getp (?us2 ! i) ''courses'' = JArr (cs @ [?new'])"
      using i by (simp add: getp_obj_set)
    have "\<forall>c\<in>set cs. getp c ''name'' \<noteq> JStr n"
      using none by (auto simp: course_named_Val)
    then show "filter (\<lambda>c. getp c ''name'' = JStr n) (cs @ [?new']) = [?new']"
      by (simp add: getp_def)
  qed
  from second upd' stored show ?thesis by blast
qed

section \<open>Claims about signup and login\<close>

text \<open>
  Claim C1, as stated, does not hold: the login that follows an accepted signup does
  match the new record without regard to case, but the record was created with status
  \<^verbatim>\<open>pending\<close>, so the login is answered 403 and not with the success response.
\<close>

theorem login_after_signup_counterexample:
  "signup ''2024-01-01T00:00:00.000Z'' []
      (JObj [(''name'', JStr ''Ann''), (''email'', JStr ''A@X.com''), (''phone'', JStr ''1''),
             (''password'', JStr ''pw''), (''role'', JStr ''student'')])
   = Val (Response 201
            (JObj [(''message'', JStr ''Signup successful (pending approval)''),
                   (''user'', new_user ''2024-01-01T00:00:00.000Z''
                      (JObj [(''name'', JStr ''Ann''), (''email'', JStr ''A@X.com''), (''phone'', JStr ''1''),
                             (''password'', JStr ''pw''), (''role'', JStr ''student'')]))]),
          [(''users.json'', File (the (JSON_stringify (JArr [new_user ''2024-01-01T00:00:00.000Z''
                      (JObj [(''name'', JStr ''Ann''), (''email'', JStr ''A@X.com''), (''phone'', JStr ''1''),
                             (''password'', JStr ''pw''), (''role'', JStr ''student'')])]))))])
   \<and> login [(''users.json'', File (the (JSON_stringify (JArr [new_user ''2024-01-01T00:00:00.000Z''
                      (JObj [(''name'', JStr ''Ann''), (''email'', JStr ''A@X.com''), (''phone'', JStr ''1''),
                             (''password'', JStr ''pw''), (''role'', JStr ''student'')])]))))]
         (JObj [(''email'', JStr ''a@x.com''), (''password'', JStr ''pw''), (''role'', JStr ''student'')])
       = Val (Response 403 (JObj [(''message'', JStr ''Account pending admin approval'')]),
              [(''users.json'', File (the (JSON_stringify (JArr [new_user ''2024-01-01T00:00:00.000Z''
                      (JObj [(''name'', JStr ''Ann''), (''email'', JStr ''A@X.com''), (''phone'', JStr ''1''),
                             (''password'', JStr ''pw''), (''role'', JStr ''student'')])]))))])"
  by (rule conjI; code_simp)

text \<open>
  Claim C1, amended. After an accepted signup with the address \<^verbatim>\<open>A@X.com\<close>, a primitive
  password and a primitive role, the login with \<^verbatim>\<open>a@x.com\<close> and the same password and
  role finds the new record and is answered 403, pending approval; once the status
  update has set the record to \<^verbatim>\<open>approved\<close>, the same login is answered with the success
  response, which carries the address as it was registered.
\<close>

theorem login_after_signup_pending_then_approved:
  assumes "json_value body"
    and "getp body ''email'' = JStr ''A@X.com''"
    and "primitive (getp body ''password'')" and "primitive (getp body ''role'')"
    and "signup now fs body = Val (Response 201 b, fs1)"
    and "getp lbody ''email'' = JStr ''a@x.com''"
    and "getp lbody ''password'' = getp body ''password''"
    and "getp lbody ''role'' = getp body ''role''"
  shows "login fs1 lbody = Val (Response 403 (message ''Account pending admin approval''), fs1)
         \<and> (\<exists>r fs2. update_status fs1 ''a@x.com'' (JObj [(''status'', JStr ''approved'')]) = Val (r, fs2)
               \<and> login fs2 lbody =
                   Val (Response 200
                          (JObj [(''message'', JStr ''Login successful''),
                                 (''user'', JObj [(''name'', getp body ''name''),
                                                  (''email'', JStr ''A@X.com''),
                                                  (''role'', getp body ''role''),
                                                  (''status'', JStr ''approved''),
                                                  (''courseType'', getp (new_user now body) ''courseType'')])]),
                        fs2))"
proof
  have low: "toLowerCase ''a@x.com'' = toLowerCase ''A@X.com''"
    by (simp add: lower_AX)
  show "login fs1 lbody = Val (Response 403 (message ''Account pending admin approval''), fs1)"
    using assms(1-6) low assms(7,8) by (rule login_after_signup)
  show "\<exists>r fs2. update_status fs1 ''a@x.com'' (JObj [(''status'', JStr ''approved'')]) = Val (r, fs2)
               \<and> login fs2 lbody =
                   Val (Response 200
                          (JObj [(''message'', JStr ''Login successful''),
                                 (''user'', JObj [(''name'', getp body ''name''),
                                                  (''email'', JStr ''A@X.com''),
                                                  (''role'', getp body ''role''),
                                                  (''status'', JStr ''approved''),
                                                  (''courseType'', getp (new_user now body) ''courseType'')])]),
                        fs2)"
    using assms(1-6) low assms(7,8) low by (rule login_after_approval)
qed

theorem login_after_signup_pending_then_approved_witness:
  "signup ''2024-01-01T00:00:00.000Z'' []
      (JObj [(''name'', JStr ''Ann''), (''email'', JStr ''A@X.com''), (''phone'', JStr ''1''),
             (''password'', JStr ''pw''), (''role'', JStr ''student'')])
   = Val (Response 201
            (JObj [(''message'', JStr ''Signup successful (pending approval)''),
                   (''user'', new_user ''2024-01-01T00:00:00.000Z''
                      (JObj [(''name'', JStr ''Ann''), (''email'', JStr ''A@X.com''), (''phone'', JStr ''1''),
                             (''password'', JStr ''pw''), (''role'', JStr ''student'')]))]),
          [(''users.json'', File (the (JSON_stringify (JArr [new_user ''2024-01-01T00:00:00.000Z''
                      (JObj [(''name'', JStr ''Ann''), (''email'', JStr ''A@X.com''), (''phone'', JStr ''1''),
                             (''password'', JStr ''pw''), (''role'', JStr ''student'')])]))))])
   \<and> (\<exists>r fs2. update_status
                  [(''users.json'', File (the (JSON_stringify (JArr [new_user ''2024-01-01T00:00:00.000Z''
                      (JObj [(''name'', JStr ''Ann''), (''email'', JStr ''A@X.com''), (''phone'', JStr ''1''),
                             (''password'', JStr ''pw''), (''role'', JStr ''student'')])]))))]
                  ''a@x.com'' (JObj [(''status'', JStr ''approved'')]) = Val (r, fs2)
          \<and> login fs2 (JObj [(''email'', JStr ''a@x.com''), (''password'', JStr ''pw''), (''role'', JStr ''student'')])
              = Val (Response 200
                       (JObj [(''message'', JStr ''Login successful''),
                              (''user'', JObj [(''name'', JStr ''Ann''),
                                               (''email'', JStr ''A@X.com''),
                                               (''role'', JStr ''student''),
                                               (''status'', JStr ''approved''),
                                               (''courseType'', JNull)])]),
                     fs2))"
proof -
  let ?body = "JObj [(''name'', JStr ''Ann''), (''email'', JStr ''A@X.com''), (''phone'', JStr ''1''),
                     (''password'', JStr ''pw''), (''role'', JStr ''student'')]"
  let ?lbody = "JObj [(''email'', JStr ''a@x.com''), (''password'', JStr ''pw''), (''role'', JStr ''student'')]"
  let ?now = "''2024-01-01T00:00:00.000Z''"
  let ?fs1 = "[(''users.json'', File (the (JSON_stringify (JArr [new_user ?now ?body]))))]"
  have h1: "json_value ?body" by simp
  have h2: "getp ?body ''email'' = JStr ''A@X.com''" by (simp add: getp_def)
  have h3: "primitive (getp ?body ''password'')" by (simp add: getp_def primitive_def)
  have h4: "primitive (getp ?body ''role'')" by (simp add: getp_def primitive_def)
  have h5: "signup ?now [] ?body
            = Val (Response 201 (JObj [(''message'', JStr ''Signup successful (pending approval)''),
                                       (''user'', new_user ?now ?body)]), ?fs1)"
    by code_simp
  have h6: "getp ?lbody ''email'' = JStr ''a@x.com''" by (simp add: getp_def)
  have h7: "getp ?lbody ''password'' = getp ?body ''password''" by (simp add: getp_def)
  have h8: "getp ?lbody ''role'' = getp ?body ''role''" by (simp add: getp_def)
  have c: "getp (new_user ?now ?body) ''courseType'' = JNull"
    by (simp add: new_user_def getp_def or_else_def truthy_def)
  have n: "getp ?body ''name'' = JStr ''Ann''" "getp ?body ''role'' = JStr ''student''"
    by (simp_all add: getp_def)
  from login_after_signup_pending_then_approved [OF h1 h2 h3 h4 h5 h6 h7 h8]
  have "\<exists>r fs2. update_status ?fs1 ''a@x.com'' (JObj [(''status'', JStr ''approved'')]) = Val (r, fs2)
          \<and> login fs2 ?lbody
              = Val (Response 200
                       (JObj [(''message'', JStr ''Login successful''),
                              (''user'', JObj [(''name'', JStr ''Ann''),
                                               (''email'', JStr ''A@X.com''),
                                               (''role'', JStr ''student''),
                                               (''status'', JStr ''approved''),
                                               (''courseType'', JNull)])]),
                     fs2)"
    by (simp only: c n)
  with h5 show ?thesis by (rule conjI)
qed

text \<open>
  Claim C5. After an accepted signup with the address \<^verbatim>\<open>b@x.com\<close>, a complete signup
  request with the address \<^verbatim>\<open>B@X.com\<close> is answered 409, and the data directory, so the
  users collection, is the one the first signup left.
\<close>

theorem second_signup_other_case_conflict:
  assumes "json_value body1"
    and "getp body1 ''email'' = JStr ''b@x.com''"
    and "signup now1 fs body1 = Val (Response 201 b1, fs1)"
    and "getp body2 ''email'' = JStr ''B@X.com''"
    and "truthy (getp body2 ''name'')" and "truthy (getp body2 ''phone'')"
    and "truthy (getp body2 ''password'')" and "truthy (getp body2 ''role'')"
  shows "signup now2 fs1 body2 = Val (Response 409 (message ''Email already registered''), fs1)"
  using assms(1-4) lower_BX assms(5-8) by (rule signup_duplicate)

theorem second_signup_other_case_conflict_witness:
  "signup ''2024-01-01T00:00:00.000Z'' []
      (JObj [(''name'', JStr ''Bea''), (''email'', JStr ''b@x.com''), (''phone'', JStr ''1''),
             (''password'', JStr ''pw''), (''role'', JStr ''teacher'')])
   = Val (Response 201
            (JObj [(''message'', JStr ''Signup successful (pending approval)''),
                   (''user'', new_user ''2024-01-01T00:00:00.000Z''
                      (JObj [(''name'', JStr ''Bea''), (''email'', JStr ''b@x.com''), (''phone'', JStr ''1''),
                             (''password'', JStr ''pw''), (''role'', JStr ''teacher'')]))]),
          [(''users.json'', File (the (JSON_stringify (JArr [new_user ''2024-01-01T00:00:00.000Z''
                      (JObj [(''name'', JStr ''Bea''), (''email'', JStr ''b@x.com''), (''phone'', JStr ''1''),
                             (''password'', JStr ''pw''), (''role'', JStr ''teacher'')])]))))])
   \<and> signup ''2024-01-02T00:00:00.000Z''
        [(''users.json'', File (the (JSON_stringify (JArr [new_user ''2024-01-01T00:00:00.000Z''
                      (JObj [(''name'', JStr ''Bea''), (''email'', JStr ''b@x.com''), (''phone'', JStr ''1''),
                             (''password'', JStr ''pw''), (''role'', JStr ''teacher'')])]))))]
        (JObj [(''name'', JStr ''Bob''), (''email'', JStr ''B@X.com''), (''phone'', JStr ''2''),
               (''password'', JStr ''other''), (''role'', JStr ''student'')])
     = Val (Response 409 (message ''Email already registered''),
            [(''users.json'', File (the (JSON_stringify (JArr [new_user ''2024-01-01T00:00:00.000Z''
                      (JObj [(''name'', JStr ''Bea''), (''email'', JStr ''b@x.com''), (''phone'', JStr ''1''),
                             (''password'', JStr ''pw''), (''role'', JStr ''teacher'')])]))))])"
proof -
  let ?body1 = "JObj [(''name'', JStr ''Bea''), (''email'', JStr ''b@x.com''), (''phone'', JStr ''1''),
                      (''password'', JStr ''pw''), (''role'', JStr ''teacher'')]"
  let ?body2 = "JObj [(''name'', JStr ''Bob''), (''email'', JStr ''B@X.com''), (''phone'', JStr ''2''),
                      (''password'', JStr ''other''), (''role'', JStr ''student'')]"
  let ?now = "''2024-01-01T00:00:00.000Z''"
  let ?fs1 = "[(''users.json'', File (the (JSON_stringify (JArr [new_user ?now ?body1]))))]"
  have h1: "json_value ?body1" by simp
  have h2: "getp ?body1 ''email'' = JStr ''b@x.com''" by (simp add: getp_def)
  have h3: "signup ?now [] ?body1
            = Val (Response 201 (JObj [(''message'', JStr ''Signup successful (pending approval)''),
                                       (''user'', new_user ?now ?body1)]), ?fs1)"
    by code_simp
  have h4: "getp ?body2 ''email'' = JStr ''B@X.com''" by (simp add: getp_def)
  have h5: "truthy (getp ?body2 ''name'')" "truthy (getp ?body2 ''phone'')"
    "truthy (getp ?body2 ''password'')" "truthy (getp ?body2 ''role'')"
    by (simp_all add: getp_def truthy_def)
  from h3 second_signup_other_case_conflict [OF h1 h2 h3 h4 h5, of "''2024-01-02T00:00:00.000Z''"]
  show ?thesis by (rule conjI)
qed

section \<open>Claims about the login response and the uniqueness of addresses\<close>



text \<open>
  Claim C9. The user object of a successful login response has exactly the properties
  \<^verbatim>\<open>name\<close>, \<^verbatim>\<open>email\<close>, \<^verbatim>\<open>role\<close>, \<^verbatim>\<open>status\<close> and \<^verbatim>\<open>courseType\<close>, each with the value the
  matched record has under that name (\<^verbatim>\<open>undefined\<close> when the record lacks it). The
  password of the record is not in the response.
\<close>

theorem login_response_user_fields:
  assumes "login fs body = Val (Response 200 b, fs')"
  shows "\<exists>us user. loadJson fs ''users.json'' (JArr []) = Val (JArr us, fs)
           \<and> user \<in> set us
           \<and> login_match (getp body ''email'') (getp body ''password'') (getp body ''role'') user = Val True
           \<and> b = JObj [(''message'', JStr ''Login successful''),
                       (''user'', JObj [(''name'', getp user ''name''),
                                        (''email'', getp user ''email''),
                                        (''role'', getp user ''role''),
                                        (''status'', getp user ''status''),
                                        (''courseType'', getp user ''courseType'')])]
           \<and> getp (getp b ''user'') ''password'' = JUndefined"
proof -
  from login_200 [OF assms] obtain us user where
    l: "loadJson fs ''users.json'' (JArr []) = Val (JArr us, fs)" and u: "user \<in> set us"
    and m: "login_match (getp body ''email'') (getp body ''password'') (getp body ''role'') user = Val True"
    and b: "b = JObj [(''message'', JStr ''Login successful''), (''user'', login_user user)]"
    by blast
  from b have "getp (getp b ''user'') ''password'' = JUndefined"
    by (simp add: getp_def login_user_def)
  with l u m b show ?thesis
    by (auto simp: login_user_def)
qed

theorem login_response_user_fields_witness:
  "login [(''users.json'', File (the (JSON_stringify (JArr [
             JObj [(''name'', JStr ''Ann''), (''email'', JStr ''A@X.com''), (''phone'', JStr ''1''),
                   (''password'', JStr ''pw''), (''role'', JStr ''student''), (''courseType'', JNull),
                   (''status'', JStr ''approved'')]]))))]
         (JObj [(''email'', JStr ''a@x.com''), (''password'', JStr ''pw''), (''role'', JStr ''student'')])
   = Val (Response 200
            (JObj [(''message'', JStr ''Login successful''),
                   (''user'', JObj [(''name'', JStr ''Ann''), (''email'', JStr ''A@X.com''),
                                    (''role'', JStr ''student''), (''status'', JStr ''approved''),
                                    (''courseType'', JNull)])]),
          [(''users.json'', File (the (JSON_stringify (JArr [
             JObj [(''name'', JStr ''Ann''), (''email'', JStr ''A@X.com''), (''phone'', JStr ''1''),
                   (''password'', JStr ''pw''), (''role'', JStr ''student''), (''courseType'', JNull),
                   (''status'', JStr ''approved'')]]))))])
   \<and> getp (getp (JObj [(''message'', JStr ''Login successful''),
                        (''user'', JObj [(''name'', JStr ''Ann''), (''email'', JStr ''A@X.com''),
                                         (''role'', JStr ''student''), (''status'', JStr ''approved''),
                                         (''courseType'', JNull)])]) ''user'') ''password'' = JUndefined"
proof -
  let ?fs = "[(''users.json'', File (the (JSON_stringify (JArr [
             JObj [(''name'', JStr ''Ann''), (''email'', JStr ''A@X.com''), (''phone'', JStr ''1''),
                   (''password'', JStr ''pw''), (''role'', JStr ''student''), (''courseType'', JNull),
                   (''status'', JStr ''approved'')]]))))]"
  let ?b = "JObj [(''message'', JStr ''Login successful''),
                  (''user'', JObj [(''name'', JStr ''Ann''), (''email'', JStr ''A@X.com''),
                                   (''role'', JStr ''student''), (''status'', JStr ''approved''),
                                   (''courseType'', JNull)])]"
  have h: "login ?fs (JObj [(''email'', JStr ''a@x.com''), (''password'', JStr ''pw''), (''role'', JStr ''student'')])
           = Val (Response 200 ?b, ?fs)"
    by code_simp
  from login_response_user_fields [OF h] have "getp (getp ?b ''user'') ''password'' = JUndefined"
    by blast
  with h show ?thesis by (rule conjI)
qed

text \<open>For comparison: the response of an accepted signup echoes the whole new record, password included.\<close>

lemma signup_response_echoes_password:
  assumes "signup now fs body = Val (Response 201 b, fs')"
  shows "getp b ''user'' = new_user now body
         \<and> getp (getp b ''user'') ''password'' = getp body ''password''
         \<and> truthy (getp body ''password'')"
proof -
  from signup_201 [OF assms] have b: "b = JObj [(''message'', JStr ''Signup successful (pending approval)''),
                                               (''user'', new_user now body)]"
    and t: "truthy (getp body ''password'')"
    by blast+
  from b have "getp b ''user'' = new_user now body" by (simp add: getp_def)
  with t show ?thesis by (simp add: getp_new_user)
qed

section \<open>The claim about the list of questions\<close>



text \<open>On that collection the listing returns the later question first.\<close>

lemma questions_example:
  "list_questions
      (map_of [(''2024-01-01T00:00:00.000Z'', 1704067200000), (''2024-01-02T00:00:00.000Z'', 1704153600000)])
      [(''questions.json'', File (the (JSON_stringify (JArr
          [JObj [(''id'', JStr ''q_1''), (''createdAt'', JStr ''2024-01-01T00:00:00.000Z'')],
           JObj [(''id'', JStr ''q_2''), (''createdAt'', JStr ''2024-01-02T00:00:00.000Z'')]]))))]
      JUndefined
   = Val (Response 200 (JArr
          [JObj [(''id'', JStr ''q_2''), (''createdAt'', JStr ''2024-01-02T00:00:00.000Z'')],
           JObj [(''id'', JStr ''q_1''), (''createdAt'', JStr ''2024-01-01T00:00:00.000Z'')]]),
        [(''questions.json'', File (the (JSON_stringify (JArr
          [JObj [(''id'', JStr ''q_1''), (''createdAt'', JStr ''2024-01-01T00:00:00.000Z'')],
           JObj [(''id'', JStr ''q_2''), (''createdAt'', JStr ''2024-01-02T00:00:00.000Z'')]]))))])"
  by code_simp

section \<open>Claims about the courses of a student\<close>

text \<open>
  Claim C6. When the course \<^verbatim>\<open>Math\<close> has been added to a student (201), adding \<^verbatim>\<open>Math\<close>
  again is answered 409 and writes nothing; the progress update of \<^verbatim>\<open>Math\<close> to 75 that
  follows is answered 200, and the student's stored courses then have exactly one entry
  named \<^verbatim>\<open>Math\<close>, with progress 75.
\<close>

theorem math_added_twice_then_updated:
  assumes "add_course fs email body = Val (Response 201 b, fs1)"
    and "getp body ''name'' = JStr ''Math''"
    and "getp body2 ''name'' = JStr ''Math''"
    and "getp pbody ''name'' = JStr ''Math''" and "getp pbody ''progress'' = JNum (Fin 75)"
  shows "add_course fs1 email body2 = Val (Response 409 (message ''Course already added''), fs1)
         \<and> (\<exists>fs2 us i cs.
               update_progress fs1 email pbody
               = Val (Response 200
                        (JObj [(''message'', JStr ''Progress updated''),
                               (''course'', JObj [(''name'', JStr ''Math''), (''progress'', JNum (Fin 75))])]), fs2)
             \<and> loadJson fs2 ''users.json'' (JArr []) = Val (JArr us, fs2)
             \<and> findIndex (email_is (toLowerCase email)) us = Val (Some i)
             \<and> getp (us ! i) ''courses'' = JArr cs
             \<and> filter (\<lambda>c. getp c ''name'' = JStr ''Math'') cs
                 = [JObj [(''name'', JStr ''Math''), (''progress'', JNum (Fin 75))]])"
proof -
  have k: "(75 :: int) \<noteq> 0" "\<bar>75 :: int\<bar> \<le> max_safe" by (simp_all add: max_safe_def)
  from course_scenario [OF assms k(1)] k(2) show ?thesis by blast
qed

theorem math_added_twice_then_updated_witness:
  "add_course
      [(''users.json'', File (the (JSON_stringify (JArr
          [JObj [(''email'', JStr ''S@x.com''), (''courses'', JArr [])]]))))]
      ''s@X.com'' (JObj [(''name'', JStr ''Math'')])
   = Val (Response 201
            (JObj [(''message'', JStr ''Course added''),
                   (''courses'', JArr [JObj [(''name'', JStr ''Math''), (''progress'', JNum (Fin 0))]])]),
          [(''users.json'', File (the (JSON_stringify (JArr
              [JObj [(''email'', JStr ''S@x.com''),
                     (''courses'', JArr [JObj [(''name'', JStr ''Math''), (''progress'', JNum (Fin 0))]])]]))))])
   \<and> add_course
        [(''users.json'', File (the (JSON_stringify (JArr
              [JObj [(''email'', JStr ''S@x.com''),
                     (''courses'', JArr [JObj [(''name'', JStr ''Math''), (''progress'', JNum (Fin 0))]])]]))))]
        ''s@X.com'' (JObj [(''name'', JStr ''Math'')])
     = Val (Response 409 (message ''Course already added''),
            [(''users.json'', File (the (JSON_stringify (JArr
              [JObj [(''email'', JStr ''S@x.com''),
                     (''courses'', JArr [JObj [(''name'', JStr ''Math''), (''progress'', JNum (Fin 0))]])]]))))])
   \<and> (\<exists>fs2 us i cs.
         update_progress
           [(''users.json'', File (the (JSON_stringify (JArr
              [JObj [(''email'', JStr ''S@x.com''),
                     (''courses'', JArr [JObj [(''name'', JStr ''Math''), (''progress'', JNum (Fin 0))]])]]))))]
           ''s@X.com'' (JObj [(''name'', JStr ''Math''), (''progress'', JNum (Fin 75))])
         = Val (Response 200
                  (JObj [(''message'', JStr ''Progress updated''),
                         (''course'', JObj [(''name'', JStr ''Math''), (''progress'', JNum (Fin 75))])]), fs2)
       \<and> loadJson fs2 ''users.json'' (JArr []) = Val (JArr us, fs2)
       \<and> findIndex (email_is (toLowerCase ''s@X.com'')) us = Val (Some i)
       \<and> getp (us ! i) ''courses'' = JArr cs
       \<and> filter (\<lambda>c. getp c ''name'' = JStr ''Math'') cs
           = [JObj [(''name'', JStr ''Math''), (''progress'', JNum (Fin 75))]])"
proof -
  let ?fs = "[(''users.json'', File (the (JSON_stringify (JArr
                [JObj [(''email'', JStr ''S@x.com''), (''courses'', JArr [])]]))))]"
  let ?fs1 = "[(''users.json'', File (the (JSON_stringify (JArr
                [JObj [(''email'', JStr ''S@x.com''),
                       (''courses'', JArr [JObj [(''name'', JStr ''Math''), (''progress'', JNum (Fin 0))]])]]))))]"
  let ?body = "JObj [(''name'', JStr ''Math'')]"
  let ?pbody = "JObj [(''name'', JStr ''Math''), (''progress'', JNum (Fin 75))]"
  have h1: "add_course ?fs ''s@X.com'' ?body
            = Val (Response 201
                     (JObj [(''message'', JStr ''Course added''),
                            (''courses'', JArr [JObj [(''name'', JStr ''Math''), (''progress'', JNum (Fin 0))]])]),
                   ?fs1)"
    by code_simp
  have h2: "getp ?body ''name'' = JStr ''Math''" by (simp add: getp_def)
  have h4: "getp ?pbody ''name'' = JStr ''Math''" by (simp add: getp_def)
  have h5: "getp ?pbody ''progress'' = JNum (Fin 75)" by (simp add: getp_def)
  from h1 math_added_twice_then_updated [OF h1 h2 h2 h4 h5] show ?thesis
    by (rule conjI)
qed




end
